theory Spec2Isabelle
  imports Main "HOL-Library.Sublist" "HOL-Library.Multiset" "HOL-Library.AList"
begin

section \<open>Data model\<close>

text \<open>
  Modelled from the spec: the declarations of the structs (\<open>TVPair\<close>, \<open>VariantTasks\<close>,
  \<open>Project\<close>, \<open>Version\<close>, \<open>Build\<close>, \<open>Task\<close>, \<open>Patch\<close>) are not part of the sources at
  hand. The fields are the ones that \<^verbatim>\<open>model/patch.go\<close> and \<^verbatim>\<open>ui/patch.go\<close> read and
  write, completed from section 3 of the specification. Field names carry a prefix
  naming their struct.
\<close>

record TVPair =
  Variant :: string
  TaskName :: string

record VariantTasks =
  vt_Variant :: string
  vt_Tasks :: "string list"

record TaskRef =
  ref_Name :: string
  ref_Variant :: string

record TaskDef =
  td_Name :: string
  td_Patchable :: "bool option"
  td_DependsOn :: "TaskRef list"

record BuildVariant =
  bv_Name :: string
  bv_DisplayName :: string
  bv_TaskRefs :: "string list"

record Project =
  proj_Identifier :: string
  proj_BuildVariants :: "BuildVariant list"
  proj_Tasks :: "TaskDef list"

section \<open>Conversions between the two request formats\<close>

text \<open>\<^verbatim>\<open>VariantTasksToTVPairs\<close>: the nested loop appends one pair per task of every entry.\<close>

definition VariantTasksToTVPairs :: "VariantTasks list \<Rightarrow> TVPair list" where
  "VariantTasksToTVPairs inp =
     concat (map (\<lambda>vt. map (\<lambda>t. \<lparr>Variant = vt_Variant vt, TaskName = t\<rparr>) (vt_Tasks vt)) inp)"

text \<open>
  \<^verbatim>\<open>TVPairsToVariantTasks\<close>. The Go map \<^verbatim>\<open>vtMap\<close> is an association list with one entry
  per key; reading a missing key gives the zero value of \<open>VariantTasks\<close>. The slice is
  made with \<^verbatim>\<open>make([]patch.VariantTasks, len(vtMap))\<close>, which already holds
  \<^verbatim>\<open>len(vtMap)\<close> zero values, and the second loop appends to it. Go leaves the order of
  \<^verbatim>\<open>range\<close> over a map open: the order is the parameter \<open>rangeOrder\<close>.
\<close>

definition zeroVariantTasks :: VariantTasks where
  "zeroVariantTasks = \<lparr>vt_Variant = [], vt_Tasks = []\<rparr>"

fun vtMap_of :: "(string \<times> VariantTasks) list \<Rightarrow> TVPair list \<Rightarrow> (string \<times> VariantTasks) list" where
  "vtMap_of vtMap [] = vtMap"
| "vtMap_of vtMap (pair # rest) =
     (let vt = (case map_of vtMap (Variant pair) of None \<Rightarrow> zeroVariantTasks | Some e \<Rightarrow> e);
          vt1 = vt\<lparr>vt_Variant := Variant pair\<rparr>;
          vt2 = vt1\<lparr>vt_Tasks := vt_Tasks vt1 @ [TaskName pair]\<rparr>
      in vtMap_of (AList.update (Variant pair) vt2 vtMap) rest)"

definition TVPairsToVariantTasks ::
  "((string \<times> VariantTasks) list \<Rightarrow> (string \<times> VariantTasks) list) \<Rightarrow> TVPair list \<Rightarrow> VariantTasks list" where
  "TVPairsToVariantTasks rangeOrder inp =
     (let vtMap = vtMap_of [] inp;
          vts = replicate (length vtMap) zeroVariantTasks
      in vts @ map snd (rangeOrder vtMap))"

text \<open>The grouping of the tasks of one variant, in input order.\<close>

definition tasksOfVariant :: "TVPair list \<Rightarrow> string \<Rightarrow> VariantTasks" where
  "tasksOfVariant inp v =
     \<lparr>vt_Variant = v, vt_Tasks = map TaskName (filter (\<lambda>p. Variant p = v) inp)\<rparr>"

section \<open>The pairs of a schedule request\<close>

text \<open>
  The request struct of \<^verbatim>\<open>ui/patch.go\<close> and the choice between its two formats in
  \<^verbatim>\<open>schedulePatch\<close> (the statement that builds \<^verbatim>\<open>pairs\<close>).
\<close>

record patchVariantsTasksRequest =
  req_VariantsTasks :: "VariantTasks list"
  req_Variants :: "string list"
  req_Tasks :: "string list"
  req_Description :: string

definition schedulePatch_pairs :: "patchVariantsTasksRequest \<Rightarrow> TVPair list" where
  "schedulePatch_pairs patchUpdateReq =
     (if length (req_VariantsTasks patchUpdateReq) > 0
      then VariantTasksToTVPairs (req_VariantsTasks patchUpdateReq)
      else concat (map (\<lambda>v. map (\<lambda>t. \<lparr>Variant = v, TaskName = t\<rparr>) (req_Tasks patchUpdateReq))
                       (req_Variants patchUpdateReq)))"

section \<open>The dependency closure\<close>

text \<open>
  Modelled from the spec: the accessors of a project are not part of the sources at
  hand. Section 4.1 gives the lookup of a task definition and of a build variant by
  name.
\<close>

definition FindProjectTask :: "Project \<Rightarrow> string \<Rightarrow> TaskDef option" where
  "FindProjectTask project name = find (\<lambda>td. td_Name td = name) (proj_Tasks project)"

definition FindBuildVariant :: "Project \<Rightarrow> string \<Rightarrow> BuildVariant option" where
  "FindBuildVariant project name = find (\<lambda>bv. bv_Name bv = name) (proj_BuildVariants project)"

text \<open>
  A declared dependency resolved to a concrete pair: the explicit variant of the
  reference, or the variant of the dependent pair when the reference names none.
\<close>

definition resolveRef :: "TVPair \<Rightarrow> TaskRef \<Rightarrow> TVPair" where
  "resolveRef pair r =
     \<lparr>Variant = (if ref_Variant r = [] then Variant pair else ref_Variant r),
      TaskName = ref_Name r\<rparr>"

definition dependenciesOf :: "Project \<Rightarrow> TVPair \<Rightarrow> TVPair list" where
  "dependenciesOf project pair =
     (case FindProjectTask project (TaskName pair) of
        None \<Rightarrow> []
      | Some td \<Rightarrow> map (resolveRef pair) (td_DependsOn td))"

text \<open>
  Modelled from the spec: \<^verbatim>\<open>dependencyIncluder.Include\<close> is not part of the sources at
  hand; only its caller \<^verbatim>\<open>IncludePatchDependencies\<close> is. Section 4.2 describes it as
  a work-list traversal of the "requires" relation from the seed, in which a pair
  already visited is never expanded again. The result type is the one the caller
  fixes: \<^verbatim>\<open>IncludePatchDependencies\<close> returns \<^verbatim>\<open>di.Include(tvpairs)\<close> as a
  \<^verbatim>\<open>[]TVPair\<close>, with no error beside it.
\<close>

definition refVariants :: "Project \<Rightarrow> string list" where
  "refVariants project = concat (map (\<lambda>td. map ref_Variant (td_DependsOn td)) (proj_Tasks project))"

definition refNames :: "Project \<Rightarrow> string list" where
  "refNames project = concat (map (\<lambda>td. map ref_Name (td_DependsOn td)) (proj_Tasks project))"

text \<open>
  The traversal ends because it stays inside a finite set of pairs: the pairs it was
  given, and the pairs of a variant it was given (or one a reference names) with a task
  name that a reference names. Every step either drops a visited pair from the work
  list or visits a new pair of that set.
\<close>

definition pairUniverse :: "Project \<Rightarrow> TVPair list \<Rightarrow> TVPair set" where
  "pairUniverse project ps =
     set (ps @ concat (map (\<lambda>v. map (\<lambda>n. \<lparr>Variant = v, TaskName = n\<rparr>) (refNames project))
                           (map Variant ps @ refVariants project)))"

definition unvisited :: "Project \<times> TVPair list \<times> TVPair list \<Rightarrow> TVPair set \<times> nat" where
  "unvisited = (\<lambda>(project, visited, worklist).
      (pairUniverse project (visited @ worklist) - set visited, length worklist))"

function include_loop :: "Project \<Rightarrow> TVPair list \<Rightarrow> TVPair list \<Rightarrow> TVPair list" where
  "include_loop project visited [] = visited"
| "include_loop project visited (x # worklist) =
     (if x \<in> set visited then include_loop project visited worklist
      else include_loop project (visited @ [x]) (worklist @ dependenciesOf project x))"
  by pat_completeness auto

termination
proof (relation "inv_image (finite_psubset <*lex*> less_than) unvisited")
  have fin: "finite (pairUniverse project ps)" for project ps
    unfolding pairUniverse_def by (rule finite_set)
  have inU: "y \<in> pairUniverse project ps \<longleftrightarrow>
       y \<in> set ps \<or> (Variant y \<in> Variant ` set ps \<union> set (refVariants project)
                     \<and> TaskName y \<in> set (refNames project))" for y project ps
    by (cases y) (auto simp: pairUniverse_def)
  have deps: "set (dependenciesOf project x) \<subseteq> pairUniverse project ps"
    if x: "x \<in> set ps" for x ps project
  proof
    fix y assume "y \<in> set (dependenciesOf project x)"
    then obtain td where td: "FindProjectTask project (TaskName x) = Some td"
      and yin: "y \<in> resolveRef x ` set (td_DependsOn td)"
      by (cases "FindProjectTask project (TaskName x)") (simp_all add: dependenciesOf_def)
    from yin obtain r where r: "r \<in> set (td_DependsOn td)" and y: "y = resolveRef x r"
      by blast
    from td have mem: "td \<in> set (proj_Tasks project)"
      by (auto simp: FindProjectTask_def find_Some_iff)
    have n: "TaskName y \<in> set (refNames project)"
      using mem r by (auto simp: y resolveRef_def refNames_def)
    have v: "Variant y \<in> Variant ` set ps \<union> set (refVariants project)"
      using mem r x by (auto simp: y resolveRef_def refVariants_def)
    from n v show "y \<in> pairUniverse project ps"
      by (simp add: inU)
  qed
  have mono: "pairUniverse project qs \<subseteq> pairUniverse project ps"
    if sub: "set qs \<subseteq> pairUniverse project ps" for qs ps project
  proof
    fix y assume y: "y \<in> pairUniverse project qs"
    show "y \<in> pairUniverse project ps"
    proof (cases "y \<in> set qs")
      case True
      with sub show ?thesis by blast
    next
      case False
      with y have n: "TaskName y \<in> set (refNames project)"
        and v: "Variant y \<in> Variant ` set qs \<union> set (refVariants project)"
        by (simp_all add: inU)
      have "Variant y \<in> Variant ` set ps \<union> set (refVariants project)"
      proof (cases "Variant y \<in> set (refVariants project)")
        case True
        then show ?thesis by simp
      next
        case nr: False
        with v obtain q where q: "q \<in> set qs" "Variant q = Variant y" by auto
        with sub have "q \<in> pairUniverse project ps" by blast
        with q nr have "q \<in> set ps \<or> Variant q \<in> Variant ` set ps"
          by (auto simp: inU)
        then have "Variant q \<in> Variant ` set ps" by blast
        with q show ?thesis by simp
      qed
      with n show ?thesis by (simp add: inU)
    qed
  qed
  show "wf (inv_image (finite_psubset <*lex*> less_than) unvisited)"
    by (intro wf_inv_image wf_lex_prod wf_finite_psubset wf_less_than)
  show "((project, visited, worklist), (project, visited, x # worklist))
          \<in> inv_image (finite_psubset <*lex*> less_than) unvisited"
    if "x \<in> set visited" for project visited worklist x
  proof -
    have "pairUniverse project (visited @ worklist) \<subseteq> pairUniverse project (visited @ x # worklist)"
      by (rule mono) (auto simp: inU)
    then have "pairUniverse project (visited @ worklist) - set visited
                 \<subseteq> pairUniverse project (visited @ x # worklist) - set visited"
      by blast
    then show ?thesis
      by (auto simp: unvisited_def finite_psubset_def fin)
  qed
  show "((project, visited @ [x], worklist @ dependenciesOf project x),
              (project, visited, x # worklist))
          \<in> inv_image (finite_psubset <*lex*> less_than) unvisited"
    if nv: "x \<notin> set visited" for project visited worklist x
  proof -
    let ?U = "pairUniverse project (visited @ x # worklist)"
    have "set ((visited @ [x]) @ worklist @ dependenciesOf project x) \<subseteq> ?U"
      using deps [of x "visited @ x # worklist" project]
      by (auto simp: inU)
    then have "pairUniverse project ((visited @ [x]) @ worklist @ dependenciesOf project x) \<subseteq> ?U"
      by (rule mono)
    moreover have "x \<in> ?U" by (simp add: inU)
    ultimately have "pairUniverse project ((visited @ [x]) @ worklist @ dependenciesOf project x)
                       - set (visited @ [x]) \<subset> ?U - set visited"
      using nv by auto
    then show ?thesis
      by (simp add: unvisited_def finite_psubset_def fin)
  qed
qed

record dependencyIncluder =
  di_Project :: Project

definition Include :: "dependencyIncluder \<Rightarrow> TVPair list \<Rightarrow> TVPair list" where
  "Include di initialDeps = include_loop (di_Project di) [] initialDeps"

text \<open>\<^verbatim>\<open>IncludePatchDependencies\<close>, as the source has it.\<close>

definition IncludePatchDependencies :: "Project \<Rightarrow> TVPair list \<Rightarrow> TVPair list" where
  "IncludePatchDependencies project tvpairs =
     (let di = \<lparr>di_Project = project\<rparr> in Include di tvpairs)"

text \<open>The pairs reachable from a seed along declared dependencies.\<close>

inductive_set reachablePairs :: "Project \<Rightarrow> TVPair list \<Rightarrow> TVPair set"
  for project :: Project and seed :: "TVPair list" where
  seed: "x \<in> set seed \<Longrightarrow> x \<in> reachablePairs project seed"
| dep: "x \<in> reachablePairs project seed \<Longrightarrow> y \<in> set (dependenciesOf project x)
         \<Longrightarrow> y \<in> reachablePairs project seed"

section \<open>Versions, builds, tasks, patches and the store\<close>

record BuildStatus =
  bs_BuildVariant :: string
  bs_Activated :: bool
  bs_BuildId :: string

record Version =
  v_Id :: string
  v_CreateTime :: nat
  v_Identifier :: string
  v_Revision :: string
  v_Author :: string
  v_AuthorEmail :: string
  v_Message :: string
  v_BuildIds :: "string list"
  v_BuildVariants :: "BuildStatus list"
  v_Config :: string
  v_Status :: string
  v_Requester :: string

record Build =
  b_Id :: string
  b_Version :: string
  b_BuildVariant :: string
  b_TaskIds :: "string list"
  b_Activated :: bool

record Task =
  t_Id :: string
  t_BuildId :: string
  t_Version :: string
  t_BuildVariant :: string
  t_DisplayName :: string
  t_DependsOn :: "string list"
  t_Activated :: bool
  t_Status :: string

record Patch =
  p_Id :: string
  p_Project :: string
  p_Githash :: string
  p_Description :: string
  p_Tasks :: "string list"
  p_BuildVariants :: "string list"
  p_VariantsTasks :: "VariantTasks list"
  p_Version :: string
  p_Activated :: bool
  p_PatchedConfig :: string

text \<open>
  The collections of the store that the engine writes. A collection is the list of its
  documents in insertion order. The patch document is the \<open>Patch\<close> value itself: every
  method that changes a patch writes the document and the struct together.
\<close>

record DB =
  db_versions :: "Version list"
  db_builds :: "Build list"
  db_tasks :: "Task list"

datatype error =
    UnmarshalError
  | ProjectRefError
  | CommitFetchError
  | CommitMissing
  | UnknownVariant string
  | UnknownTask string string
  | UnresolvedDependency TVPair
  | StoreConflict string
  | NotFound string
  | PatchNotFound
  | NotAuthorized
  | LoadError
  | BadRequest
  | VersionNotFound string

text \<open>
  What \<^verbatim>\<open>FinalizePatch\<close> and \<^verbatim>\<open>schedulePatch\<close> obtain from outside the engine: the
  YAML parser, the project reference, the commit event fetched from GitHub, the clock,
  and two constants of package \<^verbatim>\<open>evergreen\<close>. They are parameters of the model.
\<close>

record ProjectRef =
  pr_Owner :: string
  pr_Repo :: string

record CommitEvent =
  ce_CommitterName :: string
  ce_CommitterEmail :: string
  ce_Message :: string

record World =
  w_Unmarshal :: "string \<Rightarrow> Project option"
  w_FindOneProjectRef :: "string \<Rightarrow> error + ProjectRef"
  w_GetCommitEvent :: "string \<Rightarrow> string \<Rightarrow> string \<Rightarrow> string \<Rightarrow> error + CommitEvent option"
  w_Now :: nat
  w_PatchCreated :: string
  w_PatchVersionRequester :: string

record Settings =
  Credentials :: "(string \<times> string) list"

definition credential :: "Settings \<Rightarrow> string \<Rightarrow> string" where
  "credential settings key = (case map_of (Credentials settings) key of None \<Rightarrow> [] | Some c \<Rightarrow> c)"

subsection \<open>Helpers that are not part of the sources at hand\<close>

text \<open>
  Modelled from the spec: \<^verbatim>\<open>util.SliceContains\<close> is not part of the sources at hand.
  Section 4.5 reads its use as "already present in" the slice.
\<close>

definition SliceContains :: "string list \<Rightarrow> string \<Rightarrow> bool" where
  "SliceContains slice elem = (elem \<in> set slice)"

text \<open>
  Modelled from the spec: the methods of \<open>Patch\<close> are not part of the sources at hand.
  \<^verbatim>\<open>AddTasks\<close> and \<^verbatim>\<open>AddBuildVariants\<close> update \<open>Tasks\<close> and \<open>BuildVariants\<close> to the union
  with the given names (section 4.5); \<^verbatim>\<open>SetActivated\<close> sets \<open>Version\<close> to the id of the
  version (section 4.5) and, as it is named, \<open>Activated\<close>; \<^verbatim>\<open>SetVariantsTasks\<close> and
  \<^verbatim>\<open>SetDescription\<close> set their field.
\<close>

definition unionOf :: "string list \<Rightarrow> string list \<Rightarrow> string list" where
  "unionOf old names = old @ filter (\<lambda>n. n \<notin> set old) (remdups names)"

definition AddTasks :: "Patch \<Rightarrow> string list \<Rightarrow> error + Patch" where
  "AddTasks p names = Inr (p\<lparr>p_Tasks := unionOf (p_Tasks p) names\<rparr>)"

definition AddBuildVariants :: "Patch \<Rightarrow> string list \<Rightarrow> error + Patch" where
  "AddBuildVariants p names = Inr (p\<lparr>p_BuildVariants := unionOf (p_BuildVariants p) names\<rparr>)"

definition SetActivated :: "Patch \<Rightarrow> string \<Rightarrow> error + Patch" where
  "SetActivated p versionId = Inr (p\<lparr>p_Version := versionId, p_Activated := True\<rparr>)"

definition SetVariantsTasks :: "Patch \<Rightarrow> VariantTasks list \<Rightarrow> error + Patch" where
  "SetVariantsTasks p vts = Inr (p\<lparr>p_VariantsTasks := vts\<rparr>)"

definition SetDescription :: "Patch \<Rightarrow> string \<Rightarrow> error + Patch" where
  "SetDescription p d = Inr (p\<lparr>p_Description := d\<rparr>)"

text \<open>
  Modelled from the spec: the operations of the store are not part of the sources at
  hand. Each acts on one document (section 6). An insert under an id that the
  collection already holds is rejected (the duplicate-key rejection of section 5).
  \<^verbatim>\<open>build.Find(build.ByIds(ids))\<close> returns the builds whose id is among \<open>ids\<close>.
  \<^verbatim>\<open>version.UpdateOne\<close> is given here with the update document of
  \<^verbatim>\<open>AddNewBuildsForPatch\<close>: it pushes the new build ids and statuses onto the version
  with the given id, and fails when there is none.
\<close>

definition Version_Insert :: "Version \<Rightarrow> DB \<Rightarrow> error + DB" where
  "Version_Insert v db =
     (if v_Id v \<in> set (map v_Id (db_versions db)) then Inl (StoreConflict (v_Id v))
      else Inr (db\<lparr>db_versions := db_versions db @ [v]\<rparr>))"

definition build_Find_ByIds :: "string list \<Rightarrow> DB \<Rightarrow> error + Build list" where
  "build_Find_ByIds ids db = Inr (filter (\<lambda>b. b_Id b \<in> set ids) (db_builds db))"

definition pushBuilds :: "string list \<Rightarrow> BuildStatus list \<Rightarrow> Version \<Rightarrow> Version" where
  "pushBuilds newBuildIds newBuildStatuses v =
     v\<lparr>v_BuildIds := v_BuildIds v @ newBuildIds,
       v_BuildVariants := v_BuildVariants v @ newBuildStatuses\<rparr>"

definition version_UpdateOne_push :: "string \<Rightarrow> string list \<Rightarrow> BuildStatus list \<Rightarrow> DB \<Rightarrow> error + DB" where
  "version_UpdateOne_push versionId newBuildIds newBuildStatuses db =
     (if versionId \<in> set (map v_Id (db_versions db))
      then Inr (db\<lparr>db_versions :=
                  map (\<lambda>v. if v_Id v = versionId then pushBuilds newBuildIds newBuildStatuses v else v)
                      (db_versions db)\<rparr>)
      else Inl (NotFound versionId))"

text \<open>
  Modelled from the spec: the Task-ID Allocator (section 4.3) is not part of the sources
  at hand. An id is a deterministic composition of the version id, the variant name and
  the task name. The table of a patch covers the pairs the patch knows: those of
  \<open>VariantsTasks\<close> and those of \<open>BuildVariants\<close> and \<open>Tasks\<close>. \<^verbatim>\<open>AddTasksToBuild\<close> is
  given no patch; its table covers the pairs of the project.
\<close>

type_synonym TaskIdTable = "(TVPair \<times> string) list"

definition taskId :: "string \<Rightarrow> TVPair \<Rightarrow> string" where
  "taskId versionId pair = versionId @ ''_'' @ Variant pair @ ''_'' @ TaskName pair"

definition buildId :: "string \<Rightarrow> string \<Rightarrow> string" where
  "buildId versionId variant = versionId @ ''_'' @ variant"

definition crossPairs :: "string list \<Rightarrow> string list \<Rightarrow> TVPair list" where
  "crossPairs variants tasks =
     concat (map (\<lambda>v. map (\<lambda>t. \<lparr>Variant = v, TaskName = t\<rparr>) tasks) variants)"

definition patchPairs :: "Patch \<Rightarrow> TVPair list" where
  "patchPairs p = VariantTasksToTVPairs (p_VariantsTasks p) @ crossPairs (p_BuildVariants p) (p_Tasks p)"

definition projectPairs :: "Project \<Rightarrow> TVPair list" where
  "projectPairs project =
     concat (map (\<lambda>bv. map (\<lambda>t. \<lparr>Variant = bv_Name bv, TaskName = t\<rparr>) (bv_TaskRefs bv))
                 (proj_BuildVariants project))"

definition tableOf :: "string \<Rightarrow> TVPair list \<Rightarrow> TaskIdTable" where
  "tableOf versionId pairs = map (\<lambda>pair. (pair, taskId versionId pair)) pairs"

definition NewPatchTaskIdTable :: "Project \<Rightarrow> Version \<Rightarrow> Patch \<Rightarrow> TaskIdTable" where
  "NewPatchTaskIdTable project v p = tableOf (v_Id v) (patchPairs p)"

definition NewTaskIdTable :: "Project \<Rightarrow> Version \<Rightarrow> TaskIdTable" where
  "NewTaskIdTable project v = tableOf (v_Id v) (projectPairs project)"

text \<open>
  Modelled from the spec: the Build Materializer (section 4.4) is not part of the
  sources at hand. \<^verbatim>\<open>CreateBuildFromVersion\<close> checks that the variant is one of the
  project and that each task name is a task of that variant, makes one task per name,
  with the caller's activation flag and the dependencies of the task resolved through
  the table by target variant and task, and writes the build and its tasks as one unit.
  A dependency that the table does not resolve is rejected (section 3). Nothing that
  was in the store before is changed. \<^verbatim>\<open>AddTasksToBuild\<close> makes the tasks in the same
  way, for a build that exists, and appends their ids to the build (section 4.5).
\<close>

definition TaskUndispatched :: string where
  "TaskUndispatched = ''undispatched''"

fun resolveDependencies :: "TaskIdTable \<Rightarrow> TVPair list \<Rightarrow> error + string list" where
  "resolveDependencies tt [] = Inr []"
| "resolveDependencies tt (d # ds) =
     (case map_of tt d of
        None \<Rightarrow> Inl (UnresolvedDependency d)
      | Some i \<Rightarrow>
          (case resolveDependencies tt ds of
             Inl err \<Rightarrow> Inl err
           | Inr ids \<Rightarrow> Inr (i # ids)))"

definition makeTask ::
  "Project \<Rightarrow> Version \<Rightarrow> TaskIdTable \<Rightarrow> string \<Rightarrow> string \<Rightarrow> bool \<Rightarrow> string \<Rightarrow> error + Task" where
  "makeTask project v tt bId variant activated name =
     (case resolveDependencies tt (dependenciesOf project \<lparr>Variant = variant, TaskName = name\<rparr>) of
        Inl err \<Rightarrow> Inl err
      | Inr deps \<Rightarrow>
          Inr \<lparr>t_Id = taskId (v_Id v) \<lparr>Variant = variant, TaskName = name\<rparr>,
               t_BuildId = bId, t_Version = v_Id v, t_BuildVariant = variant,
               t_DisplayName = name, t_DependsOn = deps, t_Activated = activated,
               t_Status = TaskUndispatched\<rparr>)"

fun createTasksForBuild ::
  "Project \<Rightarrow> Version \<Rightarrow> TaskIdTable \<Rightarrow> string \<Rightarrow> string \<Rightarrow> bool \<Rightarrow> string list \<Rightarrow> error + Task list" where
  "createTasksForBuild project v tt bId variant activated [] = Inr []"
| "createTasksForBuild project v tt bId variant activated (name # names) =
     (case makeTask project v tt bId variant activated name of
        Inl err \<Rightarrow> Inl err
      | Inr t \<Rightarrow>
          (case createTasksForBuild project v tt bId variant activated names of
             Inl err \<Rightarrow> Inl err
           | Inr ts \<Rightarrow> Inr (t # ts)))"

definition taskConflict :: "Task list \<Rightarrow> DB \<Rightarrow> string option" where
  "taskConflict ts db =
     (case find (\<lambda>t. t_Id t \<in> set (map t_Id (db_tasks db))) ts of
        Some t \<Rightarrow> Some (t_Id t)
      | None \<Rightarrow> if distinct (map t_Id ts) then None else Some [])"

definition validateBuild :: "Project \<Rightarrow> string \<Rightarrow> string list \<Rightarrow> error option" where
  "validateBuild project variant taskNames =
     (case FindBuildVariant project variant of
        None \<Rightarrow> Some (UnknownVariant variant)
      | Some bv \<Rightarrow>
          (case find (\<lambda>t. t \<notin> set (bv_TaskRefs bv)) taskNames of
             Some t \<Rightarrow> Some (UnknownTask variant t)
           | None \<Rightarrow> None))"

definition CreateBuildFromVersion ::
  "Project \<Rightarrow> Version \<Rightarrow> TaskIdTable \<Rightarrow> string \<Rightarrow> bool \<Rightarrow> string list \<Rightarrow> DB \<Rightarrow> (error + string) \<times> DB" where
  "CreateBuildFromVersion project v tt buildName activated taskNames db =
     (case validateBuild project buildName taskNames of
        Some err \<Rightarrow> (Inl err, db)
      | None \<Rightarrow>
          (case createTasksForBuild project v tt (buildId (v_Id v) buildName) buildName activated taskNames of
             Inl err \<Rightarrow> (Inl err, db)
           | Inr ts \<Rightarrow>
               (let b = \<lparr>b_Id = buildId (v_Id v) buildName, b_Version = v_Id v,
                         b_BuildVariant = buildName, b_TaskIds = map t_Id ts,
                         b_Activated = activated\<rparr>
                in if b_Id b \<in> set (map b_Id (db_builds db)) then (Inl (StoreConflict (b_Id b)), db)
                   else (case taskConflict ts db of
                           Some i \<Rightarrow> (Inl (StoreConflict i), db)
                         | None \<Rightarrow>
                             (Inr (b_Id b),
                              db\<lparr>db_builds := db_builds db @ [b], db_tasks := db_tasks db @ ts\<rparr>)))))"

definition AddTasksToBuild ::
  "Build \<Rightarrow> Project \<Rightarrow> Version \<Rightarrow> string list \<Rightarrow> DB \<Rightarrow> (error + Build) \<times> DB" where
  "AddTasksToBuild b project v taskNames db =
     (case validateBuild project (b_BuildVariant b) taskNames of
        Some err \<Rightarrow> (Inl err, db)
      | None \<Rightarrow>
          (case createTasksForBuild project v (NewTaskIdTable project v) (b_Id b) (b_BuildVariant b)
                  (b_Activated b) taskNames of
             Inl err \<Rightarrow> (Inl err, db)
           | Inr ts \<Rightarrow>
               (case taskConflict ts db of
                  Some i \<Rightarrow> (Inl (StoreConflict i), db)
                | None \<Rightarrow>
                    (Inr (b\<lparr>b_TaskIds := b_TaskIds b @ map t_Id ts\<rparr>),
                     db\<lparr>db_builds :=
                          map (\<lambda>x. if b_Id x = b_Id b then x\<lparr>b_TaskIds := b_TaskIds x @ map t_Id ts\<rparr> else x)
                              (db_builds db),
                        db_tasks := db_tasks db @ ts\<rparr>))))"

section \<open>The functions of \<^verbatim>\<open>model/patch.go\<close>\<close>

text \<open>
  \<^verbatim>\<open>AddNewTasksForPatch\<close>. The result is the error (if any), the patch and the store as
  the call leaves them. The loop over the builds stops at the first error.
\<close>

fun addTasksToBuilds :: "Build list \<Rightarrow> Project \<Rightarrow> Version \<Rightarrow> string list \<Rightarrow> DB \<Rightarrow> error option \<times> DB" where
  "addTasksToBuilds [] project patchVersion newTasks db = (None, db)"
| "addTasksToBuilds (b # builds) project patchVersion newTasks db =
     (case AddTasksToBuild b project patchVersion newTasks db of
        (Inl err, db1) \<Rightarrow> (Some err, db1)
      | (Inr _, db1) \<Rightarrow> addTasksToBuilds builds project patchVersion newTasks db1)"

definition AddNewTasksForPatch ::
  "Patch \<Rightarrow> Version \<Rightarrow> Project \<Rightarrow> string list \<Rightarrow> DB \<Rightarrow> error option \<times> Patch \<times> DB" where
  "AddNewTasksForPatch p patchVersion project taskNames db =
     (let newTasks = filter (\<lambda>taskName. \<not> SliceContains (p_Tasks p) taskName) taskNames
      in case AddTasks p taskNames of
           Inl err \<Rightarrow> (Some err, p, db)
         | Inr p1 \<Rightarrow>
             if length newTasks > 0
             then (case build_Find_ByIds (v_BuildIds patchVersion) db of
                     Inl err \<Rightarrow> (Some err, p1, db)
                   | Inr builds \<Rightarrow>
                       (case addTasksToBuilds builds project patchVersion newTasks db of
                          (r, db1) \<Rightarrow> (r, p1, db1)))
             else (None, p1, db))"

text \<open>
  \<^verbatim>\<open>AddNewBuildsForPatch\<close>. The loop appends to \<^verbatim>\<open>newBuildIds\<close>, to
  \<^verbatim>\<open>newBuildStatuses\<close> and to \<^verbatim>\<open>patchVersion.BuildIds\<close>; an error returns at once,
  before the update of the version document. The version of the result is the struct
  behind the pointer \<^verbatim>\<open>patchVersion\<close> as the call leaves it; on success it is also
  the value returned.
\<close>

fun createNewBuilds ::
  "Project \<Rightarrow> TaskIdTable \<Rightarrow> Patch \<Rightarrow> string list \<Rightarrow> Version \<Rightarrow> string list \<Rightarrow> BuildStatus list \<Rightarrow> DB
     \<Rightarrow> error option \<times> Version \<times> string list \<times> BuildStatus list \<times> DB" where
  "createNewBuilds project tt p [] patchVersion newBuildIds newBuildStatuses db =
     (None, patchVersion, newBuildIds, newBuildStatuses, db)"
| "createNewBuilds project tt p (buildVariant # rest) patchVersion newBuildIds newBuildStatuses db =
     (case CreateBuildFromVersion project patchVersion tt buildVariant (p_Activated p) (p_Tasks p) db of
        (Inl err, db1) \<Rightarrow> (Some err, patchVersion, newBuildIds, newBuildStatuses, db1)
      | (Inr bId, db1) \<Rightarrow>
          createNewBuilds project tt p rest
            (patchVersion\<lparr>v_BuildIds := v_BuildIds patchVersion @ [bId]\<rparr>)
            (newBuildIds @ [bId])
            (newBuildStatuses @ [\<lparr>bs_BuildVariant = buildVariant, bs_Activated = p_Activated p,
                                  bs_BuildId = bId\<rparr>])
            db1)"

definition AddNewBuildsForPatch ::
  "Patch \<Rightarrow> Version \<Rightarrow> Project \<Rightarrow> string list \<Rightarrow> DB \<Rightarrow> error option \<times> Patch \<times> Version \<times> DB" where
  "AddNewBuildsForPatch p patchVersion project buildVariants db =
     (let newVariants = filter (\<lambda>variant. \<not> SliceContains (p_BuildVariants p) variant) buildVariants
      in case AddBuildVariants p buildVariants of
           Inl err \<Rightarrow> (Some err, p, patchVersion, db)
         | Inr p1 \<Rightarrow>
             (let tt = NewPatchTaskIdTable project patchVersion p1
              in case createNewBuilds project tt p1 newVariants patchVersion [] [] db of
                   (Some err, pv, newBuildIds, newBuildStatuses, db1) \<Rightarrow> (Some err, p1, pv, db1)
                 | (None, pv, newBuildIds, newBuildStatuses, db1) \<Rightarrow>
                     (case version_UpdateOne_push (v_Id pv) newBuildIds newBuildStatuses db1 of
                        Inl err \<Rightarrow> (Some err, p1, pv, db1)
                      | Inr db2 \<Rightarrow> (None, p1, pv, db2))))"

text \<open>
  \<^verbatim>\<open>FinalizePatch\<close>. The result is the version or the error, the patch and the store as
  the call leaves them. \<^verbatim>\<open>p.Id.Hex()\<close> is the field \<open>p_Id\<close>.
\<close>

fun createPatchBuilds ::
  "Project \<Rightarrow> TaskIdTable \<Rightarrow> VariantTasks list \<Rightarrow> Version \<Rightarrow> DB \<Rightarrow> (error + Version) \<times> DB" where
  "createPatchBuilds project tt [] patchVersion db = (Inr patchVersion, db)"
| "createPatchBuilds project tt (vt # rest) patchVersion db =
     (case CreateBuildFromVersion project patchVersion tt (vt_Variant vt) True (vt_Tasks vt) db of
        (Inl err, db1) \<Rightarrow> (Inl err, db1)
      | (Inr bId, db1) \<Rightarrow>
          createPatchBuilds project tt rest
            (patchVersion\<lparr>v_BuildIds := v_BuildIds patchVersion @ [bId],
                          v_BuildVariants := v_BuildVariants patchVersion
                             @ [\<lparr>bs_BuildVariant = vt_Variant vt, bs_Activated = True, bs_BuildId = bId\<rparr>]\<rparr>)
            db1)"

definition newPatchVersion :: "World \<Rightarrow> Patch \<Rightarrow> CommitEvent \<Rightarrow> Version" where
  "newPatchVersion w p gitCommit =
     \<lparr>v_Id = p_Id p @ ''_'' @ ''0'',
      v_CreateTime = w_Now w,
      v_Identifier = p_Project p,
      v_Revision = p_Githash p,
      v_Author = ce_CommitterName gitCommit,
      v_AuthorEmail = ce_CommitterEmail gitCommit,
      v_Message = ce_Message gitCommit,
      v_BuildIds = [],
      v_BuildVariants = [],
      v_Config = p_PatchedConfig p,
      v_Status = w_PatchCreated w,
      v_Requester = w_PatchVersionRequester w\<rparr>"

definition FinalizePatch :: "World \<Rightarrow> Patch \<Rightarrow> Settings \<Rightarrow> DB \<Rightarrow> (error + Version) \<times> Patch \<times> DB" where
  "FinalizePatch w p settings db =
     (case w_Unmarshal w (p_PatchedConfig p) of
        None \<Rightarrow> (Inl UnmarshalError, p, db)
      | Some project \<Rightarrow>
          (case w_FindOneProjectRef w (p_Project p) of
             Inl err \<Rightarrow> (Inl err, p, db)
           | Inr projectRef \<Rightarrow>
               (case w_GetCommitEvent w (credential settings ''github'')
                       (pr_Owner projectRef) (pr_Repo projectRef) (p_Githash p) of
                  Inl err \<Rightarrow> (Inl CommitFetchError, p, db)
                | Inr None \<Rightarrow> (Inl CommitMissing, p, db)
                | Inr (Some gitCommit) \<Rightarrow>
                    (let patchVersion = newPatchVersion w p gitCommit;
                         tt = NewPatchTaskIdTable project patchVersion p
                     in case createPatchBuilds project tt (p_VariantsTasks p) patchVersion db of
                          (Inl err, db1) \<Rightarrow> (Inl err, p, db1)
                        | (Inr pv, db1) \<Rightarrow>
                            (case Version_Insert pv db1 of
                               Inl err \<Rightarrow> (Inl err, p, db1)
                             | Inr db2 \<Rightarrow>
                                 (case SetActivated p (v_Id pv) of
                                    Inl err \<Rightarrow> (Inl err, p, db2)
                                  | Inr p1 \<Rightarrow> (Inr pv, p1, db2)))))))"

section \<open>\<^verbatim>\<open>schedulePatch\<close> of \<^verbatim>\<open>ui/patch.go\<close>\<close>

text \<open>
  The extend branch of \<^verbatim>\<open>schedulePatch\<close>: \<^verbatim>\<open>AddNewTasksForPatch\<close>, then
  \<^verbatim>\<open>AddNewBuildsForPatch\<close>, with a return after the first error. The source hands the
  pairs themselves to both functions, which take names; the names given here are the
  ones section 4.5 names: the task names, and the variant names, of the pairs, each
  name once.
\<close>

definition Extend ::
  "Patch \<Rightarrow> Version \<Rightarrow> Project \<Rightarrow> TVPair list \<Rightarrow> DB \<Rightarrow> error option \<times> Patch \<times> Version \<times> DB" where
  "Extend p patchVersion project pairs db =
     (case AddNewTasksForPatch p patchVersion project (remdups (map TaskName pairs)) db of
        (Some err, p1, db1) \<Rightarrow> (Some err, p1, patchVersion, db1)
      | (None, p1, db1) \<Rightarrow>
          AddNewBuildsForPatch p1 patchVersion project (remdups (map Variant pairs)) db1)"

text \<open>
  The handler. The context of the request holds the patch and, for a finalized patch,
  its version; the request tells whether the user may edit the patch, what reloading
  the patch gives and what decoding the body gives. The body is decoded into the field
  \<open>VariantsTasks\<close> of the request struct alone. A project configuration that does not
  parse is logged and the handler goes on with the empty project. The result is the
  response (the error, or the id of the version), the patch (when the handler got as
  far as reloading it) and the store.
\<close>

record projectContext =
  ctx_Patch :: "Patch option"
  ctx_Version :: "Version option"

record Request =
  rq_canEditPatch :: bool
  rq_FindOne :: "error + Patch"
  rq_Body :: "error + VariantTasks list"

definition emptyProject :: Project where
  "emptyProject = \<lparr>proj_Identifier = [], proj_BuildVariants = [], proj_Tasks = []\<rparr>"

definition schedulePatch ::
  "World \<Rightarrow> Settings \<Rightarrow> projectContext \<Rightarrow> Request \<Rightarrow> DB \<Rightarrow> (error + string) \<times> Patch option \<times> DB" where
  "schedulePatch w settings projCtx r db =
     (case ctx_Patch projCtx of
        None \<Rightarrow> (Inl PatchNotFound, None, db)
      | Some _ \<Rightarrow>
          if \<not> rq_canEditPatch r then (Inl NotAuthorized, None, db)
          else (case rq_FindOne r of
             Inl err \<Rightarrow> (Inl LoadError, None, db)
           | Inr patch \<Rightarrow>
               (let project = (case w_Unmarshal w (p_PatchedConfig patch) of
                                 None \<Rightarrow> emptyProject | Some pr \<Rightarrow> pr)
                in case rq_Body r of
                     Inl err \<Rightarrow> (Inl BadRequest, Some patch, db)
                   | Inr body \<Rightarrow>
                       (let patchUpdateReq = \<lparr>req_VariantsTasks = body, req_Variants = [],
                                               req_Tasks = [], req_Description = []\<rparr>;
                            pairs = IncludePatchDependencies project (schedulePatch_pairs patchUpdateReq)
                        in case SetDescription patch (req_Description patchUpdateReq) of
                             Inl err \<Rightarrow> (Inl err, Some patch, db)
                           | Inr p1 \<Rightarrow>
                               if p_Version p1 \<noteq> []
                               then (case ctx_Version projCtx of
                                       None \<Rightarrow> (Inl (VersionNotFound (p_Version p1)), Some p1, db)
                                     | Some version \<Rightarrow>
                                         (case Extend p1 version project pairs db of
                                            (Some err, p2, pv, db1) \<Rightarrow> (Inl err, Some p2, db1)
                                          | (None, p2, pv, db1) \<Rightarrow> (Inr (v_Id version), Some p2, db1)))
                               else (case SetVariantsTasks p1 (req_VariantsTasks patchUpdateReq) of
                                       Inl err \<Rightarrow> (Inl err, Some p1, db)
                                     | Inr p2 \<Rightarrow>
                                         (case FinalizePatch w p2 settings db of
                                            (Inl err, p3, db1) \<Rightarrow> (Inl err, Some p3, db1)
                                          | (Inr ver, p3, db1) \<Rightarrow> (Inr (v_Id ver), Some p3, db1)))))))"


section \<open>Scenarios\<close>

text \<open>The project of the scenarios of section 8 of the specification.\<close>

definition linuxOsx :: Project where
  "linuxOsx =
     \<lparr>proj_Identifier = ''proj'',
      proj_BuildVariants =
        [\<lparr>bv_Name = ''linux'', bv_DisplayName = ''Linux'', bv_TaskRefs = [''compile'', ''test'']\<rparr>,
         \<lparr>bv_Name = ''osx'', bv_DisplayName = ''OSX'', bv_TaskRefs = [''compile'']\<rparr>],
      proj_Tasks =
        [\<lparr>td_Name = ''compile'', td_Patchable = None, td_DependsOn = []\<rparr>,
         \<lparr>td_Name = ''test'', td_Patchable = None,
          td_DependsOn = [\<lparr>ref_Name = ''compile'', ref_Variant = []\<rparr>]\<rparr>]\<rparr>"

text \<open>
  A project with a dependency across variants, and a project in the manner of the last
  scenario of section 8: \<open>deploy\<close> depends on a task of the variant \<open>staging\<close>, which the
  project does not have.
\<close>

definition crossProject :: Project where
  "crossProject =
     \<lparr>proj_Identifier = ''proj'',
      proj_BuildVariants =
        [\<lparr>bv_Name = ''linux'', bv_DisplayName = ''Linux'', bv_TaskRefs = [''test'']\<rparr>,
         \<lparr>bv_Name = ''osx'', bv_DisplayName = ''OSX'', bv_TaskRefs = [''compile'']\<rparr>],
      proj_Tasks =
        [\<lparr>td_Name = ''compile'', td_Patchable = None, td_DependsOn = []\<rparr>,
         \<lparr>td_Name = ''test'', td_Patchable = None,
          td_DependsOn = [\<lparr>ref_Name = ''compile'', ref_Variant = ''osx''\<rparr>]\<rparr>]\<rparr>"


text \<open>
  A world in which the two configurations parse, the project reference is found and
  the commit exists; a pending patch of that world, and an empty store.
\<close>

definition world0 :: World where
  "world0 =
     \<lparr>w_Unmarshal = (\<lambda>config. if config = ''linuxOsx'' then Some linuxOsx
                               else if config = ''cross'' then Some crossProject else None),
      w_FindOneProjectRef = (\<lambda>project. Inr \<lparr>pr_Owner = ''owner'', pr_Repo = ''repo''\<rparr>),
      w_GetCommitEvent = (\<lambda>token owner repo githash.
          Inr (Some \<lparr>ce_CommitterName = ''dev'', ce_CommitterEmail = ''dev@example.com'',
                     ce_Message = ''message''\<rparr>)),
      w_Now = 0,
      w_PatchCreated = ''created'',
      w_PatchVersionRequester = ''patch_request''\<rparr>"

definition settings0 :: Settings where
  "settings0 = \<lparr>Credentials = [(''github'', ''token'')]\<rparr>"

definition emptyDB :: DB where
  "emptyDB = \<lparr>db_versions = [], db_builds = [], db_tasks = []\<rparr>"

definition patch0 :: Patch where
  "patch0 =
     \<lparr>p_Id = ''5f'', p_Project = ''proj'', p_Githash = ''abc'', p_Description = [],
      p_Tasks = [], p_BuildVariants = [], p_VariantsTasks = [], p_Version = [],
      p_Activated = False, p_PatchedConfig = ''linuxOsx''\<rparr>"

text \<open>
  The patch that asks for \<open>compile\<close> on \<open>linux\<close>, and what finalizing it in the empty
  store gives: the version, the patch and the store.
\<close>

definition patchLinuxCompile :: Patch where
  "patchLinuxCompile =
     patch0\<lparr>p_Tasks := [''compile''], p_BuildVariants := [''linux''],
            p_VariantsTasks := [\<lparr>vt_Variant = ''linux'', vt_Tasks = [''compile'']\<rparr>]\<rparr>"

definition versionF :: Version where
  "versionF =
     \<lparr>v_Id = ''5f_0'', v_CreateTime = 0, v_Identifier = ''proj'', v_Revision = ''abc'',
      v_Author = ''dev'', v_AuthorEmail = ''dev@example.com'', v_Message = ''message'',
      v_BuildIds = [''5f_0_linux''],
      v_BuildVariants = [\<lparr>bs_BuildVariant = ''linux'', bs_Activated = True, bs_BuildId = ''5f_0_linux''\<rparr>],
      v_Config = ''linuxOsx'', v_Status = ''created'', v_Requester = ''patch_request''\<rparr>"

definition patchF :: Patch where
  "patchF = patchLinuxCompile\<lparr>p_Version := ''5f_0'', p_Activated := True\<rparr>"

definition linuxCompileTask :: Task where
  "linuxCompileTask =
     \<lparr>t_Id = ''5f_0_linux_compile'', t_BuildId = ''5f_0_linux'', t_Version = ''5f_0'',
      t_BuildVariant = ''linux'', t_DisplayName = ''compile'', t_DependsOn = [],
      t_Activated = True, t_Status = ''undispatched''\<rparr>"

definition dbF :: DB where
  "dbF =
     \<lparr>db_versions = [versionF],
      db_builds = [\<lparr>b_Id = ''5f_0_linux'', b_Version = ''5f_0'', b_BuildVariant = ''linux'',
                    b_TaskIds = [''5f_0_linux_compile''], b_Activated = True\<rparr>],
      db_tasks = [linuxCompileTask]\<rparr>"

text \<open>The finalized patch extended by \<open>test\<close> on \<open>linux\<close>.\<close>

definition patchT :: Patch where
  "patchT = patchF\<lparr>p_Tasks := [''compile'', ''test'']\<rparr>"

definition linuxTestTask :: Task where
  "linuxTestTask =
     \<lparr>t_Id = ''5f_0_linux_test'', t_BuildId = ''5f_0_linux'', t_Version = ''5f_0'',
      t_BuildVariant = ''linux'', t_DisplayName = ''test'', t_DependsOn = [''5f_0_linux_compile''],
      t_Activated = True, t_Status = ''undispatched''\<rparr>"

definition dbT :: DB where
  "dbT =
     \<lparr>db_versions = [versionF],
      db_builds = [\<lparr>b_Id = ''5f_0_linux'', b_Version = ''5f_0'', b_BuildVariant = ''linux'',
                    b_TaskIds = [''5f_0_linux_compile'', ''5f_0_linux_test''], b_Activated = True\<rparr>],
      db_tasks = [linuxCompileTask, linuxTestTask]\<rparr>"

text \<open>The finalized patch extended by \<open>compile\<close> on \<open>osx\<close>.\<close>

definition patchO :: Patch where
  "patchO = patchF\<lparr>p_BuildVariants := [''linux'', ''osx'']\<rparr>"

definition versionO :: Version where
  "versionO = versionF\<lparr>v_BuildIds := [''5f_0_linux'', ''5f_0_osx'']\<rparr>"

definition osxCompileTask :: Task where
  "osxCompileTask =
     \<lparr>t_Id = ''5f_0_osx_compile'', t_BuildId = ''5f_0_osx'', t_Version = ''5f_0'',
      t_BuildVariant = ''osx'', t_DisplayName = ''compile'', t_DependsOn = [],
      t_Activated = True, t_Status = ''undispatched''\<rparr>"

definition dbO :: DB where
  "dbO =
     \<lparr>db_versions =
        [versionF\<lparr>v_BuildIds := [''5f_0_linux'', ''5f_0_osx''],
           v_BuildVariants :=
             [\<lparr>bs_BuildVariant = ''linux'', bs_Activated = True, bs_BuildId = ''5f_0_linux''\<rparr>,
              \<lparr>bs_BuildVariant = ''osx'', bs_Activated = True, bs_BuildId = ''5f_0_osx''\<rparr>]\<rparr>],
      db_builds =
        [\<lparr>b_Id = ''5f_0_linux'', b_Version = ''5f_0'', b_BuildVariant = ''linux'',
           b_TaskIds = [''5f_0_linux_compile''], b_Activated = True\<rparr>,
         \<lparr>b_Id = ''5f_0_osx'', b_Version = ''5f_0'', b_BuildVariant = ''osx'',
           b_TaskIds = [''5f_0_osx_compile''], b_Activated = True\<rparr>],
      db_tasks = [linuxCompileTask, osxCompileTask]\<rparr>"

text \<open>More pending patches, and the requests of the handler.\<close>

definition patchCross :: Patch where
  "patchCross =
     patch0\<lparr>p_PatchedConfig := ''cross'',
            p_VariantsTasks := [\<lparr>vt_Variant = ''linux'', vt_Tasks = [''test'']\<rparr>,
                                \<lparr>vt_Variant = ''osx'', vt_Tasks = [''compile'', ''lint'']\<rparr>]\<rparr>"

definition patchCrossTest :: Patch where
  "patchCrossTest =
     patch0\<lparr>p_PatchedConfig := ''cross'',
            p_VariantsTasks := [\<lparr>vt_Variant = ''linux'', vt_Tasks = [''test'']\<rparr>]\<rparr>"

definition patchCrossLegacy :: Patch where
  "patchCrossLegacy =
     patchCrossTest\<lparr>p_Tasks := [''test'', ''compile''], p_BuildVariants := [''linux'', ''osx'']\<rparr>"

definition ctxPending :: projectContext where
  "ctxPending = \<lparr>ctx_Patch = Some patchLinuxCompile, ctx_Version = None\<rparr>"

definition requestPending :: Request where
  "requestPending =
     \<lparr>rq_canEditPatch = True, rq_FindOne = Inr patchLinuxCompile,
      rq_Body = Inr [\<lparr>vt_Variant = ''linux'', vt_Tasks = [''compile'']\<rparr>]\<rparr>"

definition ctxFinalized :: projectContext where
  "ctxFinalized = \<lparr>ctx_Patch = Some patchF, ctx_Version = Some versionF\<rparr>"

definition requestFinalized :: Request where
  "requestFinalized =
     \<lparr>rq_canEditPatch = True, rq_FindOne = Inr patchF,
      rq_Body = Inr [\<lparr>vt_Variant = ''linux'', vt_Tasks = [''test'']\<rparr>]\<rparr>"



text \<open>
  The patch that asks for \<open>compile\<close> on \<open>osx\<close>, what finalizing it in the empty store
  gives, the request for \<open>test\<close> on \<open>linux\<close>, and the patch as the extend path leaves
  it: \<open>osx\<close> has no task \<open>test\<close>.
\<close>

definition patchOsxCompile :: Patch where
  "patchOsxCompile =
     patch0\<lparr>p_Tasks := [''compile''], p_BuildVariants := [''osx''],
            p_VariantsTasks := [\<lparr>vt_Variant = ''osx'', vt_Tasks = [''compile'']\<rparr>]\<rparr>"

definition versionOsx :: Version where
  "versionOsx =
     versionF\<lparr>v_BuildIds := [''5f_0_osx''],
        v_BuildVariants := [\<lparr>bs_BuildVariant = ''osx'', bs_Activated = True, bs_BuildId = ''5f_0_osx''\<rparr>]\<rparr>"

definition patchOsxF :: Patch where
  "patchOsxF = patchOsxCompile\<lparr>p_Version := ''5f_0'', p_Activated := True\<rparr>"

definition dbOsxF :: DB where
  "dbOsxF =
     \<lparr>db_versions = [versionOsx],
      db_builds = [\<lparr>b_Id = ''5f_0_osx'', b_Version = ''5f_0'', b_BuildVariant = ''osx'',
                    b_TaskIds = [''5f_0_osx_compile''], b_Activated = True\<rparr>],
      db_tasks = [osxCompileTask]\<rparr>"

definition pairLinuxTest :: "TVPair list" where
  "pairLinuxTest = [\<lparr>Variant = ''linux'', TaskName = ''test''\<rparr>]"

definition patchOsxT :: Patch where
  "patchOsxT = patchOsxF\<lparr>p_Tasks := [''compile'', ''test'']\<rparr>"





section \<open>Notions used in the statements\<close>

text \<open>
  The build that one call of the materializer writes; the build and the status entry
  that \<^verbatim>\<open>FinalizePatch\<close> produces for one entry of \<open>VariantsTasks\<close>; the pair of a task;
  a task made for a version with its dependencies resolved through a table; a store
  that grew by new builds and tasks; a store whose builds were given new tasks; a store
  that only grew.
\<close>

definition newBuild :: "Version \<Rightarrow> string \<Rightarrow> bool \<Rightarrow> Task list \<Rightarrow> Build" where
  "newBuild v buildName activated ts =
     \<lparr>b_Id = buildId (v_Id v) buildName, b_Version = v_Id v, b_BuildVariant = buildName,
      b_TaskIds = map t_Id ts, b_Activated = activated\<rparr>"

definition patchBuild :: "string \<Rightarrow> VariantTasks \<Rightarrow> Build" where
  "patchBuild versionId vt =
     \<lparr>b_Id = buildId versionId (vt_Variant vt), b_Version = versionId,
      b_BuildVariant = vt_Variant vt,
      b_TaskIds = map (\<lambda>n. taskId versionId \<lparr>Variant = vt_Variant vt, TaskName = n\<rparr>) (vt_Tasks vt),
      b_Activated = True\<rparr>"

definition patchBuildStatus :: "string \<Rightarrow> VariantTasks \<Rightarrow> BuildStatus" where
  "patchBuildStatus versionId vt =
     \<lparr>bs_BuildVariant = vt_Variant vt, bs_Activated = True,
      bs_BuildId = buildId versionId (vt_Variant vt)\<rparr>"

definition taskPair :: "Task \<Rightarrow> TVPair" where
  "taskPair t = \<lparr>Variant = t_BuildVariant t, TaskName = t_DisplayName t\<rparr>"

definition madeFor :: "Project \<Rightarrow> string \<Rightarrow> TaskIdTable \<Rightarrow> Task \<Rightarrow> bool" where
  "madeFor project versionId tt t \<longleftrightarrow>
     t_Id t = taskId versionId (taskPair t) \<and> t_Version t = versionId
   \<and> resolveDependencies tt (dependenciesOf project (taskPair t)) = Inr (t_DependsOn t)"

definition grown ::
  "(Task \<Rightarrow> bool) \<Rightarrow> string set \<Rightarrow> string set \<Rightarrow> DB \<Rightarrow> Build list \<Rightarrow> Task list \<Rightarrow> DB \<Rightarrow> bool" where
  "grown G variants names db newB newT db' \<longleftrightarrow>
     db_builds db' = db_builds db @ newB \<and> db_tasks db' = db_tasks db @ newT
   \<and> db_versions db' = db_versions db
   \<and> b_BuildVariant ` set newB \<subseteq> variants
   \<and> t_DisplayName ` set newT \<subseteq> names
   \<and> (\<forall>t \<in> set newT. G t)"

definition extended ::
  "(Task \<Rightarrow> bool) \<Rightarrow> string set \<Rightarrow> DB \<Rightarrow> Task list \<Rightarrow> DB \<Rightarrow> bool" where
  "extended G names db newT db' \<longleftrightarrow>
     map b_Id (db_builds db') = map b_Id (db_builds db)
   \<and> map b_BuildVariant (db_builds db') = map b_BuildVariant (db_builds db)
   \<and> db_tasks db' = db_tasks db @ newT
   \<and> db_versions db' = db_versions db
   \<and> t_DisplayName ` set newT \<subseteq> names
   \<and> (\<forall>t \<in> set newT. G t)"

definition additive :: "DB \<Rightarrow> DB \<Rightarrow> bool" where
  "additive db db' \<longleftrightarrow>
     prefix (map b_Id (db_builds db)) (map b_Id (db_builds db'))
   \<and> prefix (db_tasks db) (db_tasks db')
   \<and> list_all2 (\<lambda>x y. v_Id x = v_Id y \<and> prefix (v_BuildIds x) (v_BuildIds y)
                       \<and> prefix (v_BuildVariants x) (v_BuildVariants y))
        (db_versions db) (db_versions db')"

section \<open>Properties of the conversions\<close>

lemma vtMap_of_keys_distinct:
  "distinct (map fst m) \<Longrightarrow> distinct (map fst (vtMap_of m inp))"
  by (induction inp arbitrary: m) (simp_all add: Let_def distinct_update)

lemma VariantTasks_update_both:
  "(e::VariantTasks)\<lparr>vt_Variant := a, vt_Tasks := b\<rparr> = \<lparr>vt_Variant = a, vt_Tasks = b\<rparr>"
  by (cases e) simp

lemma filter_other_variant:
  "v \<notin> Variant ` set inp \<Longrightarrow> filter (\<lambda>p. Variant p = v) inp = []"
  by (auto simp: filter_empty_conv)

lemma vtMap_of_lookup:
  "map_of (vtMap_of m inp) v =
     (if v \<in> Variant ` set inp
      then Some \<lparr>vt_Variant = v,
                 vt_Tasks = (case map_of m v of None \<Rightarrow> [] | Some e \<Rightarrow> vt_Tasks e)
                            @ map TaskName (filter (\<lambda>p. Variant p = v) inp)\<rparr>
      else map_of m v)"
proof (induction inp arbitrary: m)
  case Nil
  show ?case by simp
next
  case (Cons pair rest)
  show ?case
    by (auto simp add: Cons.IH Let_def update_conv' zeroVariantTasks_def
          VariantTasks_update_both filter_other_variant split: option.split)
qed

lemma vtMap_of_empty_lookup:
  "map_of (vtMap_of [] inp) v =
     (if v \<in> Variant ` set inp then Some (tasksOfVariant inp v) else None)"
  by (simp add: vtMap_of_lookup tasksOfVariant_def)

lemma vtMap_of_empty_set:
  "set (vtMap_of [] inp) = (\<lambda>v. (v, tasksOfVariant inp v)) ` Variant ` set inp"
proof -
  have d: "distinct (map fst (vtMap_of [] inp))"
    by (rule vtMap_of_keys_distinct) simp
  have "(k, e) \<in> set (vtMap_of [] inp)
          \<longleftrightarrow> (k, e) \<in> (\<lambda>v. (v, tasksOfVariant inp v)) ` Variant ` set inp" for k e
    using map_of_eq_Some_iff [OF d, of k e] by (auto simp: vtMap_of_empty_lookup split: if_splits)
  then show ?thesis by auto
qed

lemma vtMap_of_empty_length:
  "length (vtMap_of [] inp) = card (Variant ` set inp)"
proof -
  have d: "distinct (map fst (vtMap_of [] inp))"
    by (rule vtMap_of_keys_distinct) simp
  have "set (map fst (vtMap_of [] inp)) = Variant ` set inp"
    by (simp add: vtMap_of_empty_set image_image)
  with distinct_card [OF d] show ?thesis by simp
qed

lemma tasksOfVariant_nonzero:
  "v \<in> Variant ` set inp \<Longrightarrow> vt_Tasks (tasksOfVariant inp v) \<noteq> []"
  by (auto simp: tasksOfVariant_def filter_empty_conv)

text \<open>
  Claim C10. For a non-empty input with \<open>k\<close> distinct variant names,
  \<^verbatim>\<open>TVPairsToVariantTasks\<close> returns \<open>2 * k\<close> elements: the first \<open>k\<close> are zero values
  (empty variant name, no tasks), the last \<open>k\<close> are the groupings of the tasks by
  variant, none of which is a zero value. This holds for every order in which Go may
  range over the map.
\<close>

theorem TVPairsToVariantTasks_leading_zero_values:
  assumes perm: "\<And>m. mset (rangeOrder m) = mset m" and ne: "inp \<noteq> []"
  shows "0 < card (Variant ` set inp)
       \<and> length (TVPairsToVariantTasks rangeOrder inp) = 2 * card (Variant ` set inp)
       \<and> take (card (Variant ` set inp)) (TVPairsToVariantTasks rangeOrder inp)
           = replicate (card (Variant ` set inp)) zeroVariantTasks
       \<and> set (drop (card (Variant ` set inp)) (TVPairsToVariantTasks rangeOrder inp))
           = tasksOfVariant inp ` Variant ` set inp
       \<and> zeroVariantTasks \<notin> set (drop (card (Variant ` set inp)) (TVPairsToVariantTasks rangeOrder inp))"
proof -
  let ?k = "card (Variant ` set inp)"
  let ?m = "vtMap_of [] inp"
  have len: "length ?m = ?k" by (rule vtMap_of_empty_length)
  have lenr: "length (rangeOrder ?m) = ?k"
    using perm [of ?m] len by (metis size_mset)
  have setr: "set (rangeOrder ?m) = set ?m"
    using perm [of ?m] by (metis set_mset_mset)
  have out: "TVPairsToVariantTasks rangeOrder inp
               = replicate ?k zeroVariantTasks @ map snd (rangeOrder ?m)"
    by (simp add: TVPairsToVariantTasks_def Let_def len)
  have pos: "0 < ?k" using ne by (simp add: card_gt_0_iff)
  have dr: "drop ?k (TVPairsToVariantTasks rangeOrder inp) = map snd (rangeOrder ?m)"
    by (simp add: out)
  have groups: "set (map snd (rangeOrder ?m)) = tasksOfVariant inp ` Variant ` set inp"
    by (simp add: setr vtMap_of_empty_set image_image)
  have nz: "zeroVariantTasks \<notin> tasksOfVariant inp ` Variant ` set inp"
  proof
    assume "zeroVariantTasks \<in> tasksOfVariant inp ` Variant ` set inp"
    then obtain v where v: "v \<in> Variant ` set inp" and z: "zeroVariantTasks = tasksOfVariant inp v"
      by blast
    from z have "vt_Tasks (tasksOfVariant inp v) = []"
      by (metis VariantTasks.select_convs(2) zeroVariantTasks_def)
    with tasksOfVariant_nonzero [OF v] show False by simp
  qed
  show ?thesis
    using pos lenr groups nz by (simp add: out)
qed

theorem TVPairsToVariantTasks_leading_zero_values_witness:
  "TVPairsToVariantTasks rev
      [\<lparr>Variant = ''linux'', TaskName = ''compile''\<rparr>, \<lparr>Variant = ''osx'', TaskName = ''compile''\<rparr>,
       \<lparr>Variant = ''linux'', TaskName = ''test''\<rparr>]
     = [zeroVariantTasks, zeroVariantTasks,
        \<lparr>vt_Variant = ''osx'', vt_Tasks = [''compile'']\<rparr>,
        \<lparr>vt_Variant = ''linux'', vt_Tasks = [''compile'', ''test'']\<rparr>]
   \<and> length (TVPairsToVariantTasks rev
      [\<lparr>Variant = ''linux'', TaskName = ''compile''\<rparr>, \<lparr>Variant = ''osx'', TaskName = ''compile''\<rparr>,
       \<lparr>Variant = ''linux'', TaskName = ''test''\<rparr>])
     = 2 * card (Variant ` set
      [\<lparr>Variant = ''linux'', TaskName = ''compile''\<rparr>, \<lparr>Variant = ''osx'', TaskName = ''compile''\<rparr>,
       \<lparr>Variant = ''linux'', TaskName = ''test''\<rparr>])"
  using TVPairsToVariantTasks_leading_zero_values [of rev
      "[\<lparr>Variant = ''linux'', TaskName = ''compile''\<rparr>, \<lparr>Variant = ''osx'', TaskName = ''compile''\<rparr>,
       \<lparr>Variant = ''linux'', TaskName = ''test''\<rparr>]", OF mset_rev]
  by (simp add: TVPairsToVariantTasks_def zeroVariantTasks_def)

text \<open>
  Claim C9. When the explicit per-variant form of a schedule request is non-empty, the
  pairs are built from it alone, whatever the legacy lists hold; the cross product of
  the legacy lists is used only when the explicit form is empty.
\<close>

theorem schedulePatch_pairs_explicit_form_first:
  "(req_VariantsTasks req \<noteq> [] \<longrightarrow>
       schedulePatch_pairs req = VariantTasksToTVPairs (req_VariantsTasks req)
     \<and> schedulePatch_pairs (req\<lparr>req_Variants := vs, req_Tasks := ts\<rparr>) = schedulePatch_pairs req)
   \<and> (req_VariantsTasks req = [] \<longrightarrow>
       schedulePatch_pairs req
         = concat (map (\<lambda>v. map (\<lambda>t. \<lparr>Variant = v, TaskName = t\<rparr>) (req_Tasks req)) (req_Variants req)))"
  by (simp add: schedulePatch_pairs_def)

theorem schedulePatch_pairs_explicit_form_first_witness:
  "schedulePatch_pairs
      \<lparr>req_VariantsTasks = [\<lparr>vt_Variant = ''linux'', vt_Tasks = [''test'']\<rparr>],
       req_Variants = [''osx''], req_Tasks = [''compile''], req_Description = ''d''\<rparr>
     = [\<lparr>Variant = ''linux'', TaskName = ''test''\<rparr>]
   \<and> schedulePatch_pairs
      \<lparr>req_VariantsTasks = [], req_Variants = [''osx'', ''linux''], req_Tasks = [''compile''],
       req_Description = ''d''\<rparr>
     = [\<lparr>Variant = ''osx'', TaskName = ''compile''\<rparr>, \<lparr>Variant = ''linux'', TaskName = ''compile''\<rparr>]"
  using schedulePatch_pairs_explicit_form_first
      [of "\<lparr>req_VariantsTasks = [\<lparr>vt_Variant = ''linux'', vt_Tasks = [''test'']\<rparr>],
            req_Variants = [''osx''], req_Tasks = [''compile''], req_Description = ''d''\<rparr>"
          "[''osx'']" "[''compile'']"]
    schedulePatch_pairs_explicit_form_first
      [of "\<lparr>req_VariantsTasks = [], req_Variants = [''osx'', ''linux''], req_Tasks = [''compile''],
            req_Description = ''d''\<rparr>" "[]" "[]"]
  by (simp add: VariantTasksToTVPairs_def)

section \<open>Properties of the dependency closure\<close>

lemma include_loop_keeps:
  "set visited \<union> set worklist \<subseteq> set (include_loop project visited worklist)"
  by (induction project visited worklist rule: include_loop.induct) auto

lemma include_loop_closed:
  "\<forall>p \<in> set visited. set (dependenciesOf project p) \<subseteq> set visited \<union> set worklist
   \<Longrightarrow> p \<in> set (include_loop project visited worklist)
   \<Longrightarrow> set (dependenciesOf project p) \<subseteq> set (include_loop project visited worklist)"
proof (induction project visited worklist rule: include_loop.induct)
  case (1 project visited)
  then show ?case by auto
next
  case (2 project visited x worklist)
  show ?case
  proof (cases "x \<in> set visited")
    case True
    have "\<forall>p\<in>set visited. set (dependenciesOf project p) \<subseteq> set visited \<union> set worklist"
      using "2.prems"(1) True by auto
    with 2 True show ?thesis by simp
  next
    case False
    have "\<forall>p\<in>set (visited @ [x]). set (dependenciesOf project p)
            \<subseteq> set (visited @ [x]) \<union> set (worklist @ dependenciesOf project x)"
      using "2.prems"(1) by auto
    with 2 False show ?thesis by simp
  qed
qed

lemma include_loop_reachable:
  "set visited \<union> set worklist \<subseteq> reachablePairs project seed
   \<Longrightarrow> set (include_loop project visited worklist) \<subseteq> reachablePairs project seed"
proof (induction project visited worklist rule: include_loop.induct)
  case (1 project visited)
  then show ?case by simp
next
  case (2 project visited x worklist)
  have "set (dependenciesOf project x) \<subseteq> reachablePairs project seed"
    using "2.prems" by (auto intro: reachablePairs.dep)
  with 2 show ?case by (auto split: if_splits)
qed

lemma include_loop_distinct:
  "distinct visited \<Longrightarrow> distinct (include_loop project visited worklist)"
  by (induction project visited worklist rule: include_loop.induct) auto

lemma IncludePatchDependencies_unfold:
  "IncludePatchDependencies project seed = include_loop project [] seed"
  by (simp add: IncludePatchDependencies_def Include_def)

lemma IncludePatchDependencies_seed:
  "set seed \<subseteq> set (IncludePatchDependencies project seed)"
  using include_loop_keeps [of "[]" seed project] by (simp add: IncludePatchDependencies_unfold)

lemma IncludePatchDependencies_deps:
  "p \<in> set (IncludePatchDependencies project seed)
   \<Longrightarrow> set (dependenciesOf project p) \<subseteq> set (IncludePatchDependencies project seed)"
  using include_loop_closed [of "[]" project seed p] by (simp add: IncludePatchDependencies_unfold)

lemma reachablePairs_included:
  "x \<in> reachablePairs project seed \<Longrightarrow> x \<in> set (IncludePatchDependencies project seed)"
proof (induction rule: reachablePairs.induct)
  case (seed x)
  then show ?case using IncludePatchDependencies_seed by blast
next
  case (dep x y)
  then show ?case using IncludePatchDependencies_deps by blast
qed

lemma IncludePatchDependencies_reachable:
  "set (IncludePatchDependencies project seed) = reachablePairs project seed"
proof
  show "set (IncludePatchDependencies project seed) \<subseteq> reachablePairs project seed"
    using include_loop_reachable [of "[]" seed project seed]
    by (auto simp: IncludePatchDependencies_unfold intro: reachablePairs.seed)
  show "reachablePairs project seed \<subseteq> set (IncludePatchDependencies project seed)"
    using reachablePairs_included by blast
qed

text \<open>
  Claim C6. For every project and every seed, the result of
  \<^verbatim>\<open>IncludePatchDependencies\<close> contains the seed, and for every pair of the result and
  every dependency its task definition declares, the dependency resolved to the
  explicit variant of the reference (or to the pair's own variant when the reference
  names none) is in the result too.
\<close>

theorem IncludePatchDependencies_superset_closed:
  "set seed \<subseteq> set (IncludePatchDependencies project seed)
   \<and> (\<forall>pair \<in> set (IncludePatchDependencies project seed). \<forall>td r.
         FindProjectTask project (TaskName pair) = Some td \<longrightarrow> r \<in> set (td_DependsOn td) \<longrightarrow>
         \<lparr>Variant = (if ref_Variant r = [] then Variant pair else ref_Variant r),
          TaskName = ref_Name r\<rparr> \<in> set (IncludePatchDependencies project seed))"
proof (intro conjI ballI allI impI)
  show "set seed \<subseteq> set (IncludePatchDependencies project seed)"
    by (rule IncludePatchDependencies_seed)
next
  fix pair td r
  assume pair: "pair \<in> set (IncludePatchDependencies project seed)"
    and td: "FindProjectTask project (TaskName pair) = Some td"
    and r: "r \<in> set (td_DependsOn td)"
  from td r have "resolveRef pair r \<in> set (dependenciesOf project pair)"
    by (simp add: dependenciesOf_def)
  with IncludePatchDependencies_deps [OF pair]
  have "resolveRef pair r \<in> set (IncludePatchDependencies project seed)" by blast
  then show "\<lparr>Variant = (if ref_Variant r = [] then Variant pair else ref_Variant r),
          TaskName = ref_Name r\<rparr> \<in> set (IncludePatchDependencies project seed)"
    by (simp add: resolveRef_def)
qed

section \<open>Properties of the materializer and of the two entry points\<close>

subsection \<open>The union of names\<close>

lemma unionOf_superset: "set names \<subseteq> set (unionOf old names)"
  by (auto simp: unionOf_def)


lemma unionOf_prefix: "prefix old (unionOf old names)"
  by (simp add: unionOf_def)

lemma filter_new_after_union:
  "filter (\<lambda>n. \<not> SliceContains (unionOf old names) n) names = []"
  using unionOf_superset [of names old] by (auto simp: SliceContains_def filter_empty_conv)

subsection \<open>The tasks of a build\<close>

lemma resolveDependencies_range:
  "resolveDependencies tt ds = Inr ids \<Longrightarrow> set ids \<subseteq> snd ` set tt"
proof (induction ds arbitrary: ids)
  case Nil
  then show ?case by simp
next
  case (Cons d ds)
  from Cons.prems obtain i rest where i: "map_of tt d = Some i"
    and rest: "resolveDependencies tt ds = Inr rest" and ids: "ids = i # rest"
    by (auto split: option.splits sum.splits)
  from i have "(d, i) \<in> set tt" by (rule map_of_SomeD)
  then have "i \<in> snd ` set tt" by force
  with Cons.IH [OF rest] ids show ?case by simp
qed

lemma resolveDependencies_map:
  "resolveDependencies tt ds = Inr ids \<Longrightarrow> map (map_of tt) ds = map Some ids"
  by (induction ds arbitrary: ids) (auto split: option.splits sum.splits)

lemma makeTask_fields:
  assumes "makeTask project v tt bId variant activated name = Inr t"
  shows "t_Id t = taskId (v_Id v) \<lparr>Variant = variant, TaskName = name\<rparr>"
    and "t_BuildId t = bId" and "t_Version t = v_Id v" and "t_BuildVariant t = variant"
    and "t_DisplayName t = name" and "t_Activated t = activated"
    and "set (t_DependsOn t) \<subseteq> snd ` set tt"
    and "resolveDependencies tt (dependenciesOf project \<lparr>Variant = variant, TaskName = name\<rparr>)
           = Inr (t_DependsOn t)"
proof -
  from assms obtain deps where
    deps: "resolveDependencies tt (dependenciesOf project \<lparr>Variant = variant, TaskName = name\<rparr>)
             = Inr deps"
    and t: "t = \<lparr>t_Id = taskId (v_Id v) \<lparr>Variant = variant, TaskName = name\<rparr>,
               t_BuildId = bId, t_Version = v_Id v, t_BuildVariant = variant,
               t_DisplayName = name, t_DependsOn = deps, t_Activated = activated,
               t_Status = TaskUndispatched\<rparr>"
    by (auto simp: makeTask_def split: sum.splits)
  show "t_Id t = taskId (v_Id v) \<lparr>Variant = variant, TaskName = name\<rparr>"
    and "t_BuildId t = bId" and "t_Version t = v_Id v" and "t_BuildVariant t = variant"
    and "t_DisplayName t = name" and "t_Activated t = activated"
    by (simp_all add: t)
  show "set (t_DependsOn t) \<subseteq> snd ` set tt"
    using resolveDependencies_range [OF deps] by (simp add: t)
  show "resolveDependencies tt (dependenciesOf project \<lparr>Variant = variant, TaskName = name\<rparr>)
           = Inr (t_DependsOn t)"
    using deps by (simp add: t)
qed

lemma createTasksForBuild_fields:
  "createTasksForBuild project v tt bId variant activated names = Inr ts \<Longrightarrow>
     map t_DisplayName ts = names
   \<and> map t_Id ts = map (\<lambda>n. taskId (v_Id v) \<lparr>Variant = variant, TaskName = n\<rparr>) names
   \<and> (\<forall>t \<in> set ts. t_BuildId t = bId \<and> t_Version t = v_Id v \<and> t_BuildVariant t = variant
         \<and> t_Activated t = activated \<and> set (t_DependsOn t) \<subseteq> snd ` set tt
         \<and> t_Id t = taskId (v_Id v) \<lparr>Variant = variant, TaskName = t_DisplayName t\<rparr>
         \<and> resolveDependencies tt
              (dependenciesOf project \<lparr>Variant = variant, TaskName = t_DisplayName t\<rparr>)
             = Inr (t_DependsOn t))"
proof (induction names arbitrary: ts)
  case Nil
  then show ?case by simp
next
  case (Cons name names)
  from Cons.prems obtain t rest where t: "makeTask project v tt bId variant activated name = Inr t"
    and rest: "createTasksForBuild project v tt bId variant activated names = Inr rest"
    and ts: "ts = t # rest"
    by (auto split: sum.splits)
  from makeTask_fields [OF t] Cons.IH [OF rest] ts show ?case by simp
qed

subsection \<open>What one call of the materializer does to the store\<close>

lemma CreateBuildFromVersion_result:
  assumes "CreateBuildFromVersion project v tt buildName activated taskNames db = (r, db')"
  shows "(\<exists>err. r = Inl err \<and> db' = db)
       \<or> (\<exists>ts. r = Inr (buildId (v_Id v) buildName)
              \<and> validateBuild project buildName taskNames = None
              \<and> createTasksForBuild project v tt (buildId (v_Id v) buildName) buildName activated taskNames
                  = Inr ts
              \<and> buildId (v_Id v) buildName \<notin> set (map b_Id (db_builds db))
              \<and> taskConflict ts db = None
              \<and> db' = db\<lparr>db_builds := db_builds db @ [newBuild v buildName activated ts],
                         db_tasks := db_tasks db @ ts\<rparr>)"
  using assms
  by (auto simp: CreateBuildFromVersion_def newBuild_def Let_def split: option.splits sum.splits if_splits)

lemma AddTasksToBuild_result:
  assumes "AddTasksToBuild b project v taskNames db = (r, db')"
  shows "(\<exists>err. r = Inl err \<and> db' = db)
       \<or> (\<exists>ts. r = Inr (b\<lparr>b_TaskIds := b_TaskIds b @ map t_Id ts\<rparr>)
              \<and> validateBuild project (b_BuildVariant b) taskNames = None
              \<and> createTasksForBuild project v (NewTaskIdTable project v) (b_Id b) (b_BuildVariant b)
                   (b_Activated b) taskNames = Inr ts
              \<and> taskConflict ts db = None
              \<and> db' = db\<lparr>db_builds :=
                          map (\<lambda>x. if b_Id x = b_Id b then x\<lparr>b_TaskIds := b_TaskIds x @ map t_Id ts\<rparr> else x)
                              (db_builds db),
                         db_tasks := db_tasks db @ ts\<rparr>)"
  using assms
  by (auto simp: AddTasksToBuild_def Let_def split: option.splits sum.splits if_splits)

lemma buildId_inject: "buildId vid a = buildId vid b \<longleftrightarrow> a = b"
  by (simp add: buildId_def)

lemma createTasks_pairs:
  assumes "createTasksForBuild project v tt bId variant activated names = Inr ts"
  shows "map taskPair ts = map (\<lambda>n. \<lparr>Variant = variant, TaskName = n\<rparr>) names"
proof -
  from createTasksForBuild_fields [OF assms]
  have n: "map t_DisplayName ts = names" and v: "\<forall>t \<in> set ts. t_BuildVariant t = variant"
    by simp_all
  have "map taskPair ts = map (\<lambda>t. \<lparr>Variant = variant, TaskName = t_DisplayName t\<rparr>) ts"
    using v by (simp add: taskPair_def)
  also have "\<dots> = map (\<lambda>n. \<lparr>Variant = variant, TaskName = n\<rparr>) (map t_DisplayName ts)"
    by (simp add: comp_def)
  finally show ?thesis by (simp add: n)
qed

lemma createPatchBuilds_success:
  "createPatchBuilds project tt vts pv db = (Inr pv', db') \<Longrightarrow>
     pv' = pv\<lparr>v_BuildIds := v_BuildIds pv @ map (\<lambda>vt. buildId (v_Id pv) (vt_Variant vt)) vts,
              v_BuildVariants := v_BuildVariants pv @ map (patchBuildStatus (v_Id pv)) vts\<rparr>
   \<and> db_builds db' = db_builds db @ map (patchBuild (v_Id pv)) vts
   \<and> db_versions db' = db_versions db
   \<and> (\<exists>new. db_tasks db' = db_tasks db @ new \<and> map taskPair new = VariantTasksToTVPairs vts
          \<and> (\<forall>t \<in> set new. t_Activated t \<and> t_Version t = v_Id pv))
   \<and> distinct (map vt_Variant vts)
   \<and> (\<forall>vt \<in> set vts. buildId (v_Id pv) (vt_Variant vt) \<notin> set (map b_Id (db_builds db)))"
proof (induction vts arbitrary: pv db)
  case Nil
  then show ?case by (simp add: VariantTasksToTVPairs_def)
next
  case (Cons vt rest)
  obtain r db1 where cb: "CreateBuildFromVersion project pv tt (vt_Variant vt) True (vt_Tasks vt) db = (r, db1)"
    by (cases "CreateBuildFromVersion project pv tt (vt_Variant vt) True (vt_Tasks vt) db")
  from Cons.prems cb obtain bId where r: "r = Inr bId"
    by (cases r) simp_all
  from CreateBuildFromVersion_result [OF cb] r obtain ts where
    bId: "bId = buildId (v_Id pv) (vt_Variant vt)"
    and ts: "createTasksForBuild project pv tt (buildId (v_Id pv) (vt_Variant vt)) (vt_Variant vt) True
               (vt_Tasks vt) = Inr ts"
    and fresh: "buildId (v_Id pv) (vt_Variant vt) \<notin> set (map b_Id (db_builds db))"
    and db1: "db1 = db\<lparr>db_builds := db_builds db @ [newBuild pv (vt_Variant vt) True ts],
                        db_tasks := db_tasks db @ ts\<rparr>"
    by auto
  let ?pv1 = "pv\<lparr>v_BuildIds := v_BuildIds pv @ [bId],
                 v_BuildVariants := v_BuildVariants pv
                    @ [\<lparr>bs_BuildVariant = vt_Variant vt, bs_Activated = True, bs_BuildId = bId\<rparr>]\<rparr>"
  from Cons.prems cb r have rec: "createPatchBuilds project tt rest ?pv1 db1 = (Inr pv', db')"
    by simp
  note ih = Cons.IH [OF rec]
  from createTasksForBuild_fields [OF ts]
  have ids: "map t_Id ts = map (\<lambda>n. taskId (v_Id pv) \<lparr>Variant = vt_Variant vt, TaskName = n\<rparr>) (vt_Tasks vt)"
    and act: "\<forall>t \<in> set ts. t_Activated t \<and> t_Version t = v_Id pv"
    by simp_all
  have nb: "newBuild pv (vt_Variant vt) True ts = patchBuild (v_Id pv) vt"
    by (simp add: newBuild_def patchBuild_def ids)
  have c1: "pv' = pv\<lparr>v_BuildIds := v_BuildIds pv @ map (\<lambda>vt. buildId (v_Id pv) (vt_Variant vt)) (vt # rest),
              v_BuildVariants := v_BuildVariants pv @ map (patchBuildStatus (v_Id pv)) (vt # rest)\<rparr>"
    using ih by (simp add: bId patchBuildStatus_def)
  have c2: "db_builds db' = db_builds db @ map (patchBuild (v_Id pv)) (vt # rest)"
    using ih by (simp add: db1 nb)
  have c3: "db_versions db' = db_versions db"
    using ih by (simp add: db1)
  from ih obtain new where new: "db_tasks db' = db_tasks db1 @ new"
    "map taskPair new = VariantTasksToTVPairs rest"
    "\<forall>t \<in> set new. t_Activated t \<and> t_Version t = v_Id pv"
    by auto
  have c4: "db_tasks db' = db_tasks db @ (ts @ new)"
    using new by (simp add: db1)
  have c5: "map taskPair (ts @ new) = VariantTasksToTVPairs (vt # rest)"
    using new createTasks_pairs [OF ts] by (simp add: VariantTasksToTVPairs_def)
  have c5': "\<forall>t \<in> set (ts @ new). t_Activated t \<and> t_Version t = v_Id pv"
    using new act by auto
  have c7: "\<forall>vt' \<in> set (vt # rest). buildId (v_Id pv) (vt_Variant vt') \<notin> set (map b_Id (db_builds db))"
    using ih fresh by (auto simp: db1)
  have c6: "distinct (map vt_Variant (vt # rest))"
  proof -
    from ih have "\<forall>vt' \<in> set rest. buildId (v_Id pv) (vt_Variant vt') \<noteq> buildId (v_Id pv) (vt_Variant vt)"
      by (auto simp: db1 newBuild_def)
    then have "vt_Variant vt \<notin> vt_Variant ` set rest"
      by (auto simp: buildId_inject)
    with ih show ?thesis by simp
  qed
  from c1 c2 c3 c4 c5 c5' c6 c7 show ?case by blast
qed

subsection \<open>What the loops do to the store\<close>

lemma grown_refl: "grown G variants names db [] [] db"
  by (simp add: grown_def)

lemma grown_trans:
  "grown G variants names db b1 t1 db1 \<Longrightarrow> grown G variants names db1 b2 t2 db2
   \<Longrightarrow> grown G variants names db (b1 @ b2) (t1 @ t2) db2"
  by (auto simp: grown_def)

lemma grown_mono:
  "grown G vs ns db b t db' \<Longrightarrow> vs \<subseteq> vs' \<Longrightarrow> ns \<subseteq> ns' \<Longrightarrow> grown G vs' ns' db b t db'"
  by (auto simp: grown_def)

lemma CreateBuildFromVersion_grown:
  assumes "CreateBuildFromVersion project v tt buildName activated taskNames db = (r, db')"
  shows "\<exists>newB newT. grown (madeFor project (v_Id v) tt) {buildName} (set taskNames) db newB newT db'
           \<and> (case r of Inl err \<Rightarrow> newB = [] \<and> newT = []
               | Inr bId \<Rightarrow> newB = [newBuild v buildName activated newT] \<and> bId = buildId (v_Id v) buildName)"
proof -
  from CreateBuildFromVersion_result [OF assms]
  consider (fail) err where "r = Inl err" "db' = db"
    | (ok) ts where "r = Inr (buildId (v_Id v) buildName)"
        "createTasksForBuild project v tt (buildId (v_Id v) buildName) buildName activated taskNames = Inr ts"
        "db' = db\<lparr>db_builds := db_builds db @ [newBuild v buildName activated ts],
                   db_tasks := db_tasks db @ ts\<rparr>"
    by blast
  then show ?thesis
  proof cases
    case fail
    then show ?thesis using grown_refl by (intro exI [of _ "[]"]) simp
  next
    case ok
    from createTasksForBuild_fields [OF ok(2)]
    have n: "map t_DisplayName ts = taskNames"
      and d: "\<forall>t \<in> set ts. madeFor project (v_Id v) tt t"
      by (simp_all add: madeFor_def taskPair_def)
    from n have "t_DisplayName ` set ts = set taskNames"
      by (metis set_map)
    with d have "grown (madeFor project (v_Id v) tt) {buildName} (set taskNames) db
                   [newBuild v buildName activated ts] ts db'"
      by (auto simp: grown_def ok(3) newBuild_def)
    then show ?thesis using ok(1) by (intro exI [of _ "[newBuild v buildName activated ts]"] exI [of _ ts]) simp
  qed
qed

lemma createNewBuilds_grown:
  "createNewBuilds project tt p variants pv ids sts db = (r, pv', ids', sts', db') \<Longrightarrow>
     \<exists>newB newT. grown (madeFor project (v_Id pv) tt) (set variants) (set (p_Tasks p)) db newB newT db'
        \<and> pv' = pv\<lparr>v_BuildIds := v_BuildIds pv @ map b_Id newB\<rparr>
        \<and> ids' = ids @ map b_Id newB
        \<and> sts' = sts @ map (\<lambda>b. \<lparr>bs_BuildVariant = b_BuildVariant b, bs_Activated = p_Activated p,
                                   bs_BuildId = b_Id b\<rparr>) newB
        \<and> (r = None \<longrightarrow> map b_BuildVariant newB = variants)"
proof (induction variants arbitrary: pv ids sts db)
  case Nil
  then show ?case using grown_refl [of "madeFor project (v_Id pv) tt" "{}" "set (p_Tasks p)" db]
    by (intro exI [of _ "[]"]) simp
next
  case (Cons bv rest)
  obtain r1 db1 where cb: "CreateBuildFromVersion project pv tt bv (p_Activated p) (p_Tasks p) db = (r1, db1)"
    by (cases "CreateBuildFromVersion project pv tt bv (p_Activated p) (p_Tasks p) db")
  from CreateBuildFromVersion_grown [OF cb] obtain b1 t1 where
    g1: "grown (madeFor project (v_Id pv) tt) {bv} (set (p_Tasks p)) db b1 t1 db1"
    and c1: "case r1 of Inl err \<Rightarrow> b1 = [] \<and> t1 = []
               | Inr bId \<Rightarrow> b1 = [newBuild pv bv (p_Activated p) t1] \<and> bId = buildId (v_Id pv) bv"
    by blast
  have g1': "grown (madeFor project (v_Id pv) tt) (set (bv # rest)) (set (p_Tasks p)) db b1 t1 db1"
    using g1 by (rule grown_mono) auto
  show ?case
  proof (cases r1)
    case (Inl err)
    with Cons.prems cb have res: "r = Some err" "pv' = pv" "ids' = ids" "sts' = sts" "db' = db1"
      by simp_all
    from c1 Inl have "b1 = []" "t1 = []" by simp_all
    with g1' res show ?thesis by (intro exI [of _ "[]"]) auto
  next
    case (Inr bId)
    with c1 have b1: "b1 = [newBuild pv bv (p_Activated p) t1]" and bId: "bId = buildId (v_Id pv) bv"
      by simp_all
    let ?pv1 = "pv\<lparr>v_BuildIds := v_BuildIds pv @ [bId]\<rparr>"
    let ?st = "\<lparr>bs_BuildVariant = bv, bs_Activated = p_Activated p, bs_BuildId = bId\<rparr>"
    from Cons.prems cb Inr
    have rec: "createNewBuilds project tt p rest ?pv1 (ids @ [bId]) (sts @ [?st]) db1
                 = (r, pv', ids', sts', db')"
      by simp
    have vid1: "v_Id ?pv1 = v_Id pv" by simp
    from Cons.IH [OF rec] obtain b2 t2 where
      g2: "grown (madeFor project (v_Id ?pv1) tt) (set rest) (set (p_Tasks p)) db1 b2 t2 db'"
      and pv': "pv' = ?pv1\<lparr>v_BuildIds := v_BuildIds ?pv1 @ map b_Id b2\<rparr>"
      and ids': "ids' = (ids @ [bId]) @ map b_Id b2"
      and sts': "sts' = (sts @ [?st]) @ map (\<lambda>b. \<lparr>bs_BuildVariant = b_BuildVariant b,
                      bs_Activated = p_Activated p, bs_BuildId = b_Id b\<rparr>) b2"
      and ok: "r = None \<longrightarrow> map b_BuildVariant b2 = rest"
      by blast
    have g2': "grown (madeFor project (v_Id pv) tt) (set (bv # rest)) (set (p_Tasks p)) db1 b2 t2 db'"
      using g2 [unfolded vid1] by (rule grown_mono) auto
    have f1: "grown (madeFor project (v_Id pv) tt) (set (bv # rest)) (set (p_Tasks p)) db (b1 @ b2) (t1 @ t2) db'"
      using g1' g2' by (rule grown_trans)
    have f2: "pv' = pv\<lparr>v_BuildIds := v_BuildIds pv @ map b_Id (b1 @ b2)\<rparr>"
      by (simp add: pv' b1 bId newBuild_def)
    have f3: "ids' = ids @ map b_Id (b1 @ b2)"
      by (simp add: ids' b1 bId newBuild_def)
    have f4: "sts' = sts @ map (\<lambda>b. \<lparr>bs_BuildVariant = b_BuildVariant b,
                      bs_Activated = p_Activated p, bs_BuildId = b_Id b\<rparr>) (b1 @ b2)"
      by (simp add: sts' b1 bId newBuild_def)
    have f5: "r = None \<longrightarrow> map b_BuildVariant (b1 @ b2) = bv # rest"
      using ok by (simp add: b1 newBuild_def)
    show ?thesis
      by (rule exI [of _ "b1 @ b2"], rule exI [of _ "t1 @ t2"]) (intro conjI f1 f2 f3 f4 f5)
  qed
qed

lemma extended_refl: "extended G names db [] db"
  by (simp add: extended_def)

lemma extended_trans:
  "extended G names db t1 db1 \<Longrightarrow> extended G names db1 t2 db2 \<Longrightarrow> extended G names db (t1 @ t2) db2"
  by (auto simp: extended_def)

lemma AddTasksToBuild_extended:
  assumes "AddTasksToBuild b project v taskNames db = (r, db')"
  shows "\<exists>newT. extended (madeFor project (v_Id v) (NewTaskIdTable project v)) (set taskNames) db newT db'"
proof -
  from AddTasksToBuild_result [OF assms]
  consider (fail) "db' = db"
    | (ok) ts where
        "createTasksForBuild project v (NewTaskIdTable project v) (b_Id b) (b_BuildVariant b)
           (b_Activated b) taskNames = Inr ts"
        "db' = db\<lparr>db_builds :=
                    map (\<lambda>x. if b_Id x = b_Id b then x\<lparr>b_TaskIds := b_TaskIds x @ map t_Id ts\<rparr> else x)
                        (db_builds db),
                   db_tasks := db_tasks db @ ts\<rparr>"
    by blast
  then show ?thesis
  proof cases
    case fail
    then show ?thesis using extended_refl by blast
  next
    case ok
    from createTasksForBuild_fields [OF ok(1)]
    have n: "map t_DisplayName ts = taskNames"
      and d: "\<forall>t \<in> set ts. madeFor project (v_Id v) (NewTaskIdTable project v) t"
      by (simp_all add: madeFor_def taskPair_def)
    from n have "t_DisplayName ` set ts = set taskNames"
      by (metis set_map)
    with d have "extended (madeFor project (v_Id v) (NewTaskIdTable project v)) (set taskNames) db ts db'"
      by (auto simp: extended_def ok(2) comp_def)
    then show ?thesis by blast
  qed
qed

lemma addTasksToBuilds_extended:
  "addTasksToBuilds builds project v newTasks db = (r, db') \<Longrightarrow>
     \<exists>newT. extended (madeFor project (v_Id v) (NewTaskIdTable project v)) (set newTasks) db newT db'"
proof (induction builds arbitrary: db)
  case Nil
  then show ?case using extended_refl by auto
next
  case (Cons b builds)
  obtain r1 db1 where ab: "AddTasksToBuild b project v newTasks db = (r1, db1)"
    by (cases "AddTasksToBuild b project v newTasks db")
  from AddTasksToBuild_extended [OF ab] obtain t1 where
    e1: "extended (madeFor project (v_Id v) (NewTaskIdTable project v)) (set newTasks) db t1 db1" by blast
  show ?case
  proof (cases r1)
    case (Inl err)
    with Cons.prems ab have "db' = db1" by simp
    with e1 show ?thesis by blast
  next
    case (Inr b')
    with Cons.prems ab have "addTasksToBuilds builds project v newTasks db1 = (r, db')" by simp
    from Cons.IH [OF this] obtain t2 where
      "extended (madeFor project (v_Id v) (NewTaskIdTable project v)) (set newTasks) db1 t2 db'" by blast
    with e1 show ?thesis using extended_trans by blast
  qed
qed

lemma additive_refl: "additive db db"
  by (simp add: additive_def list_all2_same)

lemma additive_trans:
  assumes "additive db db1" and "additive db1 db2"
  shows "additive db db2"
proof -
  have "list_all2 (\<lambda>x y. v_Id x = v_Id y \<and> prefix (v_BuildIds x) (v_BuildIds y)
                       \<and> prefix (v_BuildVariants x) (v_BuildVariants y))
        (db_versions db) (db_versions db2)"
  proof (rule list_all2_trans)
    show "list_all2 (\<lambda>x y. v_Id x = v_Id y \<and> prefix (v_BuildIds x) (v_BuildIds y)
                       \<and> prefix (v_BuildVariants x) (v_BuildVariants y))
        (db_versions db) (db_versions db1)"
      using assms(1) by (simp add: additive_def)
    show "list_all2 (\<lambda>x y. v_Id x = v_Id y \<and> prefix (v_BuildIds x) (v_BuildIds y)
                       \<and> prefix (v_BuildVariants x) (v_BuildVariants y))
        (db_versions db1) (db_versions db2)"
      using assms(2) by (simp add: additive_def)
  qed (auto intro: prefix_order.trans)
  with assms show ?thesis
    unfolding additive_def by (auto intro: prefix_order.trans)
qed

lemma grown_additive: "grown G vs ns db newB newT db' \<Longrightarrow> additive db db'"
  by (simp add: grown_def additive_def list_all2_same)

lemma extended_additive: "extended G ns db newT db' \<Longrightarrow> additive db db'"
  by (simp add: extended_def additive_def list_all2_same)

lemma version_UpdateOne_push_additive:
  assumes "version_UpdateOne_push vid ids sts db = Inr db'"
  shows "additive db db'" and "db_builds db' = db_builds db" and "db_tasks db' = db_tasks db"
    and "map v_Id (db_versions db') = map v_Id (db_versions db)"
proof -
  from assms have db': "db' = db\<lparr>db_versions :=
          map (\<lambda>v. if v_Id v = vid then pushBuilds ids sts v else v) (db_versions db)\<rparr>"
    by (auto simp: version_UpdateOne_push_def split: if_splits)
  show "db_builds db' = db_builds db" and "db_tasks db' = db_tasks db"
    by (simp_all add: db')
  show "map v_Id (db_versions db') = map v_Id (db_versions db)"
    by (simp add: db' pushBuilds_def comp_def)
  show "additive db db'"
    by (simp add: additive_def db' list_all2_map2 list_all2_same pushBuilds_def)
qed


lemma version_UpdateOne_push_failed:
  "version_UpdateOne_push vid ids sts db = Inl err \<Longrightarrow> vid \<notin> set (map v_Id (db_versions db))"
  by (auto simp: version_UpdateOne_push_def split: if_splits)

subsection \<open>The two functions of the extend path\<close>

lemma AddNewTasksForPatch_result:
  assumes "AddNewTasksForPatch p v project taskNames db = (r, p', db')"
  shows "p' = p\<lparr>p_Tasks := unionOf (p_Tasks p) taskNames\<rparr>"
    and "\<exists>newT. extended (madeFor project (v_Id v) (NewTaskIdTable project v)) (set taskNames - set (p_Tasks p)) db newT db'"
proof -
  let ?new = "filter (\<lambda>taskName. \<not> SliceContains (p_Tasks p) taskName) taskNames"
  have sn: "set ?new = set taskNames - set (p_Tasks p)"
    by (auto simp: SliceContains_def)
  show "p' = p\<lparr>p_Tasks := unionOf (p_Tasks p) taskNames\<rparr>"
    using assms
    by (auto simp: AddNewTasksForPatch_def AddTasks_def build_Find_ByIds_def Let_def
             split: if_splits prod.splits)
  show "\<exists>newT. extended (madeFor project (v_Id v) (NewTaskIdTable project v)) (set taskNames - set (p_Tasks p)) db newT db'"
  proof (cases "?new = []")
    case True
    with assms have "db' = db"
      by (simp add: AddNewTasksForPatch_def AddTasks_def Let_def)
    then show ?thesis using extended_refl by blast
  next
    case False
    with assms obtain r1 where
      "addTasksToBuilds (filter (\<lambda>b. b_Id b \<in> set (v_BuildIds v)) (db_builds db)) project v ?new db
         = (r1, db')"
      by (auto simp: AddNewTasksForPatch_def AddTasks_def build_Find_ByIds_def Let_def
               split: prod.splits)
    from addTasksToBuilds_extended [OF this] sn show ?thesis by simp
  qed
qed


lemma AddNewBuildsForPatch_result:
  assumes "AddNewBuildsForPatch p v project buildVariants db = (r, p', v', db')"
  shows "p' = p\<lparr>p_BuildVariants := unionOf (p_BuildVariants p) buildVariants\<rparr>"
    and "\<exists>newB newT dbm.
           grown (madeFor project (v_Id v) (NewPatchTaskIdTable project v p')) (set buildVariants - set (p_BuildVariants p))
              (set (p_Tasks p)) db newB newT dbm
         \<and> v' = v\<lparr>v_BuildIds := v_BuildIds v @ map b_Id newB\<rparr>
         \<and> (db' = dbm \<and> r \<noteq> None \<or>
              r = None \<and> map b_BuildVariant newB
                  = filter (\<lambda>variant. \<not> SliceContains (p_BuildVariants p) variant) buildVariants
            \<and> version_UpdateOne_push (v_Id v) (map b_Id newB)
                (map (\<lambda>b. \<lparr>bs_BuildVariant = b_BuildVariant b, bs_Activated = p_Activated p,
                            bs_BuildId = b_Id b\<rparr>) newB) dbm = Inr db')"
proof -
  let ?new = "filter (\<lambda>variant. \<not> SliceContains (p_BuildVariants p) variant) buildVariants"
  let ?p1 = "p\<lparr>p_BuildVariants := unionOf (p_BuildVariants p) buildVariants\<rparr>"
  have sn: "set ?new = set buildVariants - set (p_BuildVariants p)"
    by (auto simp: SliceContains_def)
  show p': "p' = ?p1"
    using assms
    by (auto simp: AddNewBuildsForPatch_def AddBuildVariants_def Let_def
             split: prod.splits option.splits sum.splits)
  obtain r1 pv ids sts dbm where
    loop: "createNewBuilds project (NewPatchTaskIdTable project v ?p1) ?p1 ?new v [] [] db
             = (r1, pv, ids, sts, dbm)"
    by (metis prod_cases5)
  from createNewBuilds_grown [OF loop] obtain newB newT where
    g: "grown (madeFor project (v_Id v) (NewPatchTaskIdTable project v ?p1)) (set ?new) (set (p_Tasks ?p1)) db newB newT dbm"
    and pv: "pv = v\<lparr>v_BuildIds := v_BuildIds v @ map b_Id newB\<rparr>"
    and ids: "ids = map b_Id newB"
    and sts: "sts = map (\<lambda>b. \<lparr>bs_BuildVariant = b_BuildVariant b, bs_Activated = p_Activated ?p1,
                              bs_BuildId = b_Id b\<rparr>) newB"
    and ok: "r1 = None \<longrightarrow> map b_BuildVariant newB = ?new"
    by auto
  have vid: "v_Id pv = v_Id v" by (simp add: pv)
  from assms loop have v': "v' = pv"
    by (auto simp: AddNewBuildsForPatch_def AddBuildVariants_def Let_def
             split: option.splits sum.splits)
  have g': "grown (madeFor project (v_Id v) (NewPatchTaskIdTable project v p')) (set buildVariants - set (p_BuildVariants p))
              (set (p_Tasks p)) db newB newT dbm"
    using g [unfolded sn] by (simp add: p')
  have last: "(db' = dbm \<and> r \<noteq> None) \<or>
              (r = None \<and> r1 = None \<and> version_UpdateOne_push (v_Id v) ids sts dbm = Inr db')"
    using assms loop vid
    by (auto simp: AddNewBuildsForPatch_def AddBuildVariants_def Let_def
             split: option.splits sum.splits)
  have "db' = dbm \<and> r \<noteq> None \<or>
              r = None \<and> map b_BuildVariant newB = ?new
            \<and> version_UpdateOne_push (v_Id v) (map b_Id newB)
                (map (\<lambda>b. \<lparr>bs_BuildVariant = b_BuildVariant b, bs_Activated = p_Activated p,
                            bs_BuildId = b_Id b\<rparr>) newB) dbm = Inr db'"
    using last ok by (auto simp: ids sts)
  with g' v' pv
  show "\<exists>newB newT dbm.
           grown (madeFor project (v_Id v) (NewPatchTaskIdTable project v p')) (set buildVariants - set (p_BuildVariants p))
              (set (p_Tasks p)) db newB newT dbm
         \<and> v' = v\<lparr>v_BuildIds := v_BuildIds v @ map b_Id newB\<rparr>
         \<and> (db' = dbm \<and> r \<noteq> None \<or>
              r = None \<and> map b_BuildVariant newB = ?new
            \<and> version_UpdateOne_push (v_Id v) (map b_Id newB)
                (map (\<lambda>b. \<lparr>bs_BuildVariant = b_BuildVariant b, bs_Activated = p_Activated p,
                            bs_BuildId = b_Id b\<rparr>) newB) dbm = Inr db')"
    by (intro exI [of _ newB] exI [of _ newT] exI [of _ dbm]) simp
qed



lemma createPatchBuilds_grown:
  "createPatchBuilds project tt vts pv db = (r, db') \<Longrightarrow>
     \<exists>newB newT. grown (madeFor project (v_Id pv) tt) (vt_Variant ` set vts)
                    (\<Union>vt \<in> set vts. set (vt_Tasks vt)) db newB newT db'"
proof (induction vts arbitrary: pv db)
  case Nil
  then show ?case by (intro exI [of _ "[]"]) (simp add: grown_def)
next
  case (Cons vt rest)
  let ?V = "vt_Variant ` set (vt # rest)" and ?N = "\<Union>vt \<in> set (vt # rest). set (vt_Tasks vt)"
  obtain r1 db1 where cb: "CreateBuildFromVersion project pv tt (vt_Variant vt) True (vt_Tasks vt) db = (r1, db1)"
    by (cases "CreateBuildFromVersion project pv tt (vt_Variant vt) True (vt_Tasks vt) db")
  from CreateBuildFromVersion_grown [OF cb] obtain b1 t1 where
    "grown (madeFor project (v_Id pv) tt) {vt_Variant vt} (set (vt_Tasks vt)) db b1 t1 db1"
    by blast
  then have g1: "grown (madeFor project (v_Id pv) tt) ?V ?N db b1 t1 db1"
    by (rule grown_mono) auto
  show ?case
  proof (cases r1)
    case (Inl err)
    with Cons.prems cb have "db' = db1" by simp
    with g1 show ?thesis by blast
  next
    case (Inr bId)
    let ?pv1 = "pv\<lparr>v_BuildIds := v_BuildIds pv @ [bId],
                   v_BuildVariants := v_BuildVariants pv
                      @ [\<lparr>bs_BuildVariant = vt_Variant vt, bs_Activated = True, bs_BuildId = bId\<rparr>]\<rparr>"
    have vid1: "v_Id ?pv1 = v_Id pv" by simp
    from Cons.prems cb Inr have rec: "createPatchBuilds project tt rest ?pv1 db1 = (r, db')"
      by simp
    from Cons.IH [OF rec] obtain b2 t2 where
      g2: "grown (madeFor project (v_Id ?pv1) tt) (vt_Variant ` set rest)
             (\<Union>vt \<in> set rest. set (vt_Tasks vt)) db1 b2 t2 db'"
      by blast
    have "grown (madeFor project (v_Id pv) tt) ?V ?N db1 b2 t2 db'"
      using g2 [unfolded vid1] by (rule grown_mono) auto
    with g1 show ?thesis using grown_trans by blast
  qed
qed

lemma FinalizePatch_after_fetch:
  assumes "FinalizePatch w p settings db = (r, p', db')"
  shows "(db' = db \<and> p' = p \<and> (\<exists>err. r = Inl err))
       \<or> (\<exists>project gitCommit r1 db1.
             w_Unmarshal w (p_PatchedConfig p) = Some project
           \<and> createPatchBuilds project (NewPatchTaskIdTable project (newPatchVersion w p gitCommit) p)
                (p_VariantsTasks p) (newPatchVersion w p gitCommit) db = (r1, db1)
           \<and> (case r1 of
                 Inl err \<Rightarrow> r = Inl err \<and> p' = p \<and> db' = db1
               | Inr pv \<Rightarrow>
                   (r = Inl (StoreConflict (v_Id pv)) \<and> p' = p \<and> db' = db1
                      \<and> v_Id pv \<in> set (map v_Id (db_versions db1)))
                 \<or> (r = Inr pv \<and> p' = p\<lparr>p_Version := v_Id pv, p_Activated := True\<rparr>
                      \<and> v_Id pv \<notin> set (map v_Id (db_versions db1))
                      \<and> db' = db1\<lparr>db_versions := db_versions db1 @ [pv]\<rparr>)))"
proof (cases "w_Unmarshal w (p_PatchedConfig p)")
  case None
  with assms show ?thesis by (auto simp: FinalizePatch_def)
next
  case (Some project)
  note pr = this
  show ?thesis
  proof (cases "w_FindOneProjectRef w (p_Project p)")
    case (Inl err)
    with assms pr show ?thesis by (auto simp: FinalizePatch_def)
  next
    case (Inr projectRef)
    note ref = this
    show ?thesis
    proof (cases "w_GetCommitEvent w (credential settings ''github'')
                    (pr_Owner projectRef) (pr_Repo projectRef) (p_Githash p)")
      case (Inl err)
      with assms pr ref show ?thesis by (auto simp: FinalizePatch_def)
    next
      case (Inr c)
      show ?thesis
      proof (cases c)
        case None
        with assms pr ref Inr show ?thesis by (auto simp: FinalizePatch_def)
      next
        case (Some gitCommit)
        let ?pv = "newPatchVersion w p gitCommit"
        obtain r1 db1 where
          loop: "createPatchBuilds project (NewPatchTaskIdTable project ?pv p)
                   (p_VariantsTasks p) ?pv db = (r1, db1)"
          by (cases "createPatchBuilds project (NewPatchTaskIdTable project ?pv p)
                   (p_VariantsTasks p) ?pv db")
        have "case r1 of
                 Inl err \<Rightarrow> r = Inl err \<and> p' = p \<and> db' = db1
               | Inr pv \<Rightarrow>
                   (r = Inl (StoreConflict (v_Id pv)) \<and> p' = p \<and> db' = db1
                      \<and> v_Id pv \<in> set (map v_Id (db_versions db1)))
                 \<or> (r = Inr pv \<and> p' = p\<lparr>p_Version := v_Id pv, p_Activated := True\<rparr>
                      \<and> v_Id pv \<notin> set (map v_Id (db_versions db1))
                      \<and> db' = db1\<lparr>db_versions := db_versions db1 @ [pv]\<rparr>)"
          using assms pr ref Inr Some loop
          by (auto simp: FinalizePatch_def Let_def Version_Insert_def SetActivated_def
                   split: sum.splits if_splits)
        with pr loop show ?thesis by blast
      qed
    qed
  qed
qed

lemma same_version_ids:
  "list_all2 (\<lambda>x y. v_Id x = v_Id y \<and> prefix (v_BuildIds x) (v_BuildIds y)
                       \<and> prefix (v_BuildVariants x) (v_BuildVariants y)) xs ys
   \<Longrightarrow> map v_Id ys = map v_Id xs"
  by (induction rule: list_all2_induct) simp_all

lemma additive_version_ids: "additive db db' \<Longrightarrow> map v_Id (db_versions db') = map v_Id (db_versions db)"
  using same_version_ids [of "db_versions db" "db_versions db'"] by (simp add: additive_def)

lemma AddNewTasksForPatch_additive:
  "AddNewTasksForPatch p v project taskNames db = (r, p', db') \<Longrightarrow> additive db db'"
  using AddNewTasksForPatch_result(2) extended_additive by blast

lemma AddNewBuildsForPatch_additive:
  assumes "AddNewBuildsForPatch p v project buildVariants db = (r, p', v', db')"
  shows "additive db db'" and "prefix (v_BuildIds v) (v_BuildIds v')"
    and "v_BuildVariants v' = v_BuildVariants v" and "v_Id v' = v_Id v"
proof -
  from AddNewBuildsForPatch_result(2) [OF assms] obtain newB newT dbm ids sts where
    g: "grown (madeFor project (v_Id v) (NewPatchTaskIdTable project v p'))
          (set buildVariants - set (p_BuildVariants p)) (set (p_Tasks p)) db newB newT dbm"
    and v': "v' = v\<lparr>v_BuildIds := v_BuildIds v @ map b_Id newB\<rparr>"
    and last: "db' = dbm \<or> version_UpdateOne_push (v_Id v) ids sts dbm = Inr db'"
    by blast
  from g have a: "additive db dbm" by (rule grown_additive)
  from last show "additive db db'"
  proof
    assume "db' = dbm"
    with a show ?thesis by simp
  next
    assume "version_UpdateOne_push (v_Id v) ids sts dbm = Inr db'"
    from a version_UpdateOne_push_additive(1) [OF this] show ?thesis by (rule additive_trans)
  qed
  show "prefix (v_BuildIds v) (v_BuildIds v')" and "v_BuildVariants v' = v_BuildVariants v"
    and "v_Id v' = v_Id v"
    by (simp_all add: v')
qed

lemma Extend_stages:
  assumes "Extend p v project pairs db = (r, p', v', db')"
  shows "\<exists>r1 p1 db1. AddNewTasksForPatch p v project (remdups (map TaskName pairs)) db = (r1, p1, db1)
          \<and> ((\<exists>err. r1 = Some err \<and> r = Some err \<and> p' = p1 \<and> v' = v \<and> db' = db1)
             \<or> (r1 = None \<and> AddNewBuildsForPatch p1 v project (remdups (map Variant pairs)) db1
                               = (r, p', v', db')))"
proof -
  obtain r1 p1 db1 where s1: "AddNewTasksForPatch p v project (remdups (map TaskName pairs)) db = (r1, p1, db1)"
    by (cases "AddNewTasksForPatch p v project (remdups (map TaskName pairs)) db")
  with assms show ?thesis
    by (cases r1) (auto simp: Extend_def)
qed

lemma Extend_additive:
  assumes "Extend p v project pairs db = (r, p', v', db')"
  shows "additive db db'" and "prefix (v_BuildIds v) (v_BuildIds v')"
    and "v_BuildVariants v' = v_BuildVariants v" and "v_Id v' = v_Id v"
proof -
  from Extend_stages [OF assms] obtain r1 p1 db1 where
    s1: "AddNewTasksForPatch p v project (remdups (map TaskName pairs)) db = (r1, p1, db1)"
    and s2: "(p' = p1 \<and> v' = v \<and> db' = db1)
             \<or> AddNewBuildsForPatch p1 v project (remdups (map Variant pairs)) db1 = (r, p', v', db')"
    by blast
  note a1 = AddNewTasksForPatch_additive [OF s1]
  from s2 have "additive db db' \<and> prefix (v_BuildIds v) (v_BuildIds v')
     \<and> v_BuildVariants v' = v_BuildVariants v \<and> v_Id v' = v_Id v"
  proof
    assume "p' = p1 \<and> v' = v \<and> db' = db1"
    with a1 show ?thesis by simp
  next
    assume s: "AddNewBuildsForPatch p1 v project (remdups (map Variant pairs)) db1 = (r, p', v', db')"
    from a1 AddNewBuildsForPatch_additive(1) [OF s] have "additive db db'" by (rule additive_trans)
    with AddNewBuildsForPatch_additive(2,3,4) [OF s] show ?thesis by simp
  qed
  then show "additive db db'" and "prefix (v_BuildIds v) (v_BuildIds v')"
    and "v_BuildVariants v' = v_BuildVariants v" and "v_Id v' = v_Id v"
    by simp_all
qed







text \<open>
  Claim C7. Whatever the extend path returns, the ids of the builds that were in the
  store are still there, in their places, followed by the new ones; every task that was
  in the store is there unchanged, \<open>DependsOn\<close> included, in its place; every stored
  version keeps its id, and its \<open>BuildIds\<close> and \<open>BuildVariants\<close> are extended at the
  end; the same holds for the version struct the caller passed.
\<close>

theorem Extend_additive_only:
  assumes "Extend p v project pairs db = (r, p', v', db')"
  shows "prefix (map b_Id (db_builds db)) (map b_Id (db_builds db'))
       \<and> prefix (db_tasks db) (db_tasks db')
       \<and> list_all2 (\<lambda>x y. v_Id x = v_Id y \<and> prefix (v_BuildIds x) (v_BuildIds y)
                           \<and> prefix (v_BuildVariants x) (v_BuildVariants y))
            (db_versions db) (db_versions db')
       \<and> prefix (v_BuildIds v) (v_BuildIds v')
       \<and> prefix (v_BuildVariants v) (v_BuildVariants v')"
  using Extend_additive [OF assms] by (simp add: additive_def)



lemma FinalizePatch_success:
  assumes "FinalizePatch w p settings db = (Inr v, p', db')"
  shows "v_Id v = p_Id p @ ''_0''
       \<and> v_BuildIds v = map (\<lambda>vt. buildId (v_Id v) (vt_Variant vt)) (p_VariantsTasks p)
       \<and> v_BuildVariants v = map (patchBuildStatus (v_Id v)) (p_VariantsTasks p)
       \<and> db_builds db' = db_builds db @ map (patchBuild (v_Id v)) (p_VariantsTasks p)
       \<and> (\<exists>newT. db_tasks db' = db_tasks db @ newT
             \<and> map taskPair newT = VariantTasksToTVPairs (p_VariantsTasks p)
             \<and> (\<forall>t \<in> set newT. t_Activated t \<and> t_Version t = v_Id v))
       \<and> distinct (map vt_Variant (p_VariantsTasks p))
       \<and> db_versions db' = db_versions db @ [v]
       \<and> p' = p\<lparr>p_Version := v_Id v, p_Activated := True\<rparr>"
proof -
  from FinalizePatch_after_fetch [OF assms] obtain project gitCommit r1 db1 where
    loop: "createPatchBuilds project (NewPatchTaskIdTable project (newPatchVersion w p gitCommit) p)
             (p_VariantsTasks p) (newPatchVersion w p gitCommit) db = (r1, db1)"
    and rest: "case r1 of
                 Inl err \<Rightarrow> Inr v = (Inl err :: error + Version) \<and> p' = p \<and> db' = db1
               | Inr pv \<Rightarrow>
                   (Inr v = (Inl (StoreConflict (v_Id pv)) :: error + Version) \<and> p' = p \<and> db' = db1
                      \<and> v_Id pv \<in> set (map v_Id (db_versions db1)))
                 \<or> (Inr v = (Inr pv :: error + Version) \<and> p' = p\<lparr>p_Version := v_Id pv, p_Activated := True\<rparr>
                      \<and> v_Id pv \<notin> set (map v_Id (db_versions db1))
                      \<and> db' = db1\<lparr>db_versions := db_versions db1 @ [pv]\<rparr>)"
    by blast
  from rest have r1: "r1 = Inr v" and p': "p' = p\<lparr>p_Version := v_Id v, p_Activated := True\<rparr>"
    and db': "db' = db1\<lparr>db_versions := db_versions db1 @ [v]\<rparr>"
    by (cases r1; simp)+
  let ?pv = "newPatchVersion w p gitCommit"
  have id0: "v_Id ?pv = p_Id p @ ''_0''" and b0: "v_BuildIds ?pv = []" and s0: "v_BuildVariants ?pv = []"
    by (simp_all add: newPatchVersion_def)
  note s = createPatchBuilds_success [OF loop [unfolded r1]]
  from s have v: "v = ?pv\<lparr>v_BuildIds := v_BuildIds ?pv @ map (\<lambda>vt. buildId (v_Id ?pv) (vt_Variant vt)) (p_VariantsTasks p),
              v_BuildVariants := v_BuildVariants ?pv @ map (patchBuildStatus (v_Id ?pv)) (p_VariantsTasks p)\<rparr>"
    by simp
  have vid: "v_Id v = v_Id ?pv" by (subst v) simp
  have c1: "v_Id v = p_Id p @ ''_0''" using vid id0 by simp
  have c2: "v_BuildIds v = map (\<lambda>vt. buildId (v_Id v) (vt_Variant vt)) (p_VariantsTasks p)"
    unfolding vid by (subst v) (simp add: b0)
  have c3: "v_BuildVariants v = map (patchBuildStatus (v_Id v)) (p_VariantsTasks p)"
    unfolding vid by (subst v) (simp add: s0)
  have c4: "db_builds db' = db_builds db @ map (patchBuild (v_Id v)) (p_VariantsTasks p)"
    using s by (simp add: db' vid)
  have c5: "\<exists>newT. db_tasks db' = db_tasks db @ newT
             \<and> map taskPair newT = VariantTasksToTVPairs (p_VariantsTasks p)
             \<and> (\<forall>t \<in> set newT. t_Activated t \<and> t_Version t = v_Id v)"
    using s by (simp add: db' vid)
  have c6: "distinct (map vt_Variant (p_VariantsTasks p))" using s by simp
  have c7: "db_versions db' = db_versions db @ [v]" using s by (simp add: db')
  from c1 c2 c3 c4 c5 c6 c7 p' show ?thesis by (intro conjI)
qed

lemma FinalizePatch_same_for_every_Version:
  "fst (FinalizePatch w (p\<lparr>p_Version := x\<rparr>) settings db) = fst (FinalizePatch w p settings db)
 \<and> snd (snd (FinalizePatch w (p\<lparr>p_Version := x\<rparr>) settings db)) = snd (snd (FinalizePatch w p settings db))"
  by (simp add: FinalizePatch_def Let_def newPatchVersion_def NewPatchTaskIdTable_def patchPairs_def
        SetActivated_def split: option.split sum.split prod.split)

lemma createPatchBuilds_again:
  assumes first: "createPatchBuilds project tt (vt # rest) pv db = (Inr v, db1)"
    and held: "set (map b_Id (db_builds db1)) \<subseteq> set (map b_Id (db_builds db2))"
  shows "createPatchBuilds project tt (vt # rest) pv db2
           = (Inl (StoreConflict (buildId (v_Id pv) (vt_Variant vt))), db2)"
proof -
  obtain r dbx where cb: "CreateBuildFromVersion project pv tt (vt_Variant vt) True (vt_Tasks vt) db = (r, dbx)"
    by (cases "CreateBuildFromVersion project pv tt (vt_Variant vt) True (vt_Tasks vt) db")
  from first cb obtain bId where r: "r = Inr bId"
    by (cases r) simp_all
  from CreateBuildFromVersion_result [OF cb] r obtain ts where
    val: "validateBuild project (vt_Variant vt) (vt_Tasks vt) = None"
    and ts: "createTasksForBuild project pv tt (buildId (v_Id pv) (vt_Variant vt)) (vt_Variant vt) True
               (vt_Tasks vt) = Inr ts"
    by auto
  from createPatchBuilds_success [OF first]
  have "buildId (v_Id pv) (vt_Variant vt) \<in> set (map b_Id (db_builds db1))"
    by (simp add: patchBuild_def)
  with held have "buildId (v_Id pv) (vt_Variant vt) \<in> set (map b_Id (db_builds db2))"
    by blast
  then have "CreateBuildFromVersion project pv tt (vt_Variant vt) True (vt_Tasks vt) db2
               = (Inl (StoreConflict (buildId (v_Id pv) (vt_Variant vt))), db2)"
    by (simp add: CreateBuildFromVersion_def val ts)
  then show ?thesis by simp
qed

lemma FinalizePatch_fetched:
  assumes "FinalizePatch w p settings db = (Inr v, p', db')"
  shows "\<exists>project projectRef gitCommit.
           w_Unmarshal w (p_PatchedConfig p) = Some project
         \<and> w_FindOneProjectRef w (p_Project p) = Inr projectRef
         \<and> w_GetCommitEvent w (credential settings ''github'')
               (pr_Owner projectRef) (pr_Repo projectRef) (p_Githash p) = Inr (Some gitCommit)
         \<and> (\<exists>db1. createPatchBuilds project (NewPatchTaskIdTable project (newPatchVersion w p gitCommit) p)
               (p_VariantsTasks p) (newPatchVersion w p gitCommit) db = (Inr v, db1)
              \<and> db' = db1\<lparr>db_versions := db_versions db1 @ [v]\<rparr>)
         \<and> p' = p\<lparr>p_Version := v_Id v, p_Activated := True\<rparr>"
  using assms
  by (auto simp: FinalizePatch_def Let_def Version_Insert_def SetActivated_def
           split: option.splits sum.splits prod.splits if_splits)

lemma FinalizePatch_twice:
  assumes "FinalizePatch w p settings db = (Inr v, p', db')"
  shows "p_Version p' = v_Id v \<and> v_Id v \<noteq> []
       \<and> (\<exists>i. FinalizePatch w p' settings db' = (Inl (StoreConflict i), p', db'))"
proof -
  from FinalizePatch_fetched [OF assms] obtain project projectRef gitCommit db1 where
    pr: "w_Unmarshal w (p_PatchedConfig p) = Some project"
    and ref: "w_FindOneProjectRef w (p_Project p) = Inr projectRef"
    and ce: "w_GetCommitEvent w (credential settings ''github'')
               (pr_Owner projectRef) (pr_Repo projectRef) (p_Githash p) = Inr (Some gitCommit)"
    and loop: "createPatchBuilds project (NewPatchTaskIdTable project (newPatchVersion w p gitCommit) p)
               (p_VariantsTasks p) (newPatchVersion w p gitCommit) db = (Inr v, db1)"
    and db': "db' = db1\<lparr>db_versions := db_versions db1 @ [v]\<rparr>"
    and p': "p' = p\<lparr>p_Version := v_Id v, p_Activated := True\<rparr>"
    by blast
  let ?pv = "newPatchVersion w p gitCommit"
  have pv': "newPatchVersion w (p\<lparr>p_Version := x, p_Activated := y\<rparr>) gitCommit = ?pv" for x y
    by (simp add: newPatchVersion_def)
  have tt': "NewPatchTaskIdTable project ?pv (p\<lparr>p_Version := x, p_Activated := y\<rparr>)
               = NewPatchTaskIdTable project ?pv p" for x y
    by (simp add: NewPatchTaskIdTable_def patchPairs_def)
  from createPatchBuilds_success [OF loop] have vid: "v_Id v = v_Id ?pv"
    by simp
  have id0: "v_Id v = p_Id p @ ''_0''"
    by (simp add: vid newPatchVersion_def)
  have "\<exists>i. FinalizePatch w p' settings db' = (Inl (StoreConflict i), p', db')"
  proof (cases "p_VariantsTasks p")
    case Nil
    with loop have "v = ?pv" by simp
    then have "Version_Insert ?pv db' = Inl (StoreConflict (v_Id ?pv))"
      by (simp add: Version_Insert_def db')
    then have "FinalizePatch w p' settings db' = (Inl (StoreConflict (v_Id ?pv)), p', db')"
      using pr ref ce Nil
      by (simp add: FinalizePatch_def Let_def pv' tt' p')
    then show ?thesis by blast
  next
    case (Cons vt rest)
    have "set (map b_Id (db_builds db1)) \<subseteq> set (map b_Id (db_builds db'))"
      by (simp add: db')
    from createPatchBuilds_again [OF loop [unfolded Cons] this]
    have "createPatchBuilds project (NewPatchTaskIdTable project ?pv p) (p_VariantsTasks p) ?pv db'
            = (Inl (StoreConflict (buildId (v_Id ?pv) (vt_Variant vt))), db')"
      by (simp add: Cons)
    then have "FinalizePatch w p' settings db'
                 = (Inl (StoreConflict (buildId (v_Id ?pv) (vt_Variant vt))), p', db')"
      using pr ref ce
      by (simp add: FinalizePatch_def Let_def pv' tt' p')
    then show ?thesis by blast
  qed
  then show ?thesis
    by (simp add: p' id0)
qed

lemma schedulePatch_finalized_keeps_versions:
  assumes "rq_FindOne r = Inr patch" and "p_Version patch \<noteq> []"
  shows "map v_Id (db_versions (snd (snd (schedulePatch w settings projCtx r db)))) = map v_Id (db_versions db)"
proof -
  have "additive db (snd (snd (schedulePatch w settings projCtx r db)))"
    using assms Extend_additive(1) additive_refl
    by (auto simp: schedulePatch_def Let_def SetDescription_def
             split: option.splits sum.splits prod.splits)
  then show ?thesis by (rule additive_version_ids)
qed

lemma schedulePatch_finalize_sets_Version:
  assumes "schedulePatch w settings projCtx r db = (Inr vid, Some p', db')"
    and "rq_FindOne r = Inr patch" and "p_Version patch = []"
  shows "p_Version p' = vid \<and> vid \<noteq> []"
proof -
  from assms obtain p2 ver where
    f: "FinalizePatch w p2 settings db = (Inr ver, p', db')" and vid: "vid = v_Id ver"
    by (auto simp: schedulePatch_def Let_def SetDescription_def SetVariantsTasks_def
             split: option.splits sum.splits prod.splits if_splits)
  from FinalizePatch_success [OF f] show ?thesis
    by (simp add: vid)
qed




lemma tableOf_lookup:
  "map_of (tableOf versionId pairs) d = Some i \<Longrightarrow> i = taskId versionId d \<and> d \<in> set pairs"
  by (induction pairs) (auto simp: tableOf_def split: if_splits)

lemma resolveDependencies_tableOf:
  "resolveDependencies (tableOf versionId pairs) ds = Inr ids
   \<Longrightarrow> ids = map (taskId versionId) ds \<and> set ds \<subseteq> set pairs"
proof (induction ds arbitrary: ids)
  case Nil
  then show ?case by simp
next
  case (Cons d ds)
  from Cons.prems obtain i rest where i: "map_of (tableOf versionId pairs) d = Some i"
    and rest: "resolveDependencies (tableOf versionId pairs) ds = Inr rest" and ids: "ids = i # rest"
    by (auto split: option.splits sum.splits)
  from tableOf_lookup [OF i] Cons.IH [OF rest] ids show ?case by simp
qed

lemma madeFor_tableOf:
  assumes "madeFor project versionId (tableOf versionId pairs) t"
  shows "t_DependsOn t = map (taskId versionId) (dependenciesOf project (taskPair t))"
    and "set (dependenciesOf project (taskPair t)) \<subseteq> set pairs"
    and "t_Id t = taskId versionId (taskPair t)"
  using assms resolveDependencies_tableOf [of versionId pairs "dependenciesOf project (taskPair t)" "t_DependsOn t"]
  by (simp_all add: madeFor_def)

lemma FinalizePatch_new_tasks:
  assumes "FinalizePatch w p settings db = (r, p', db')"
    and "w_Unmarshal w (p_PatchedConfig p) = Some project"
  shows "\<exists>newT. db_tasks db' = db_tasks db @ newT
           \<and> (\<forall>t \<in> set newT. madeFor project (p_Id p @ ''_0'') (tableOf (p_Id p @ ''_0'') (patchPairs p)) t)"
proof -
  from FinalizePatch_after_fetch [OF assms(1)] show ?thesis
  proof (elim disjE exE conjE)
    assume "db' = db"
    then show ?thesis by simp
  next
    fix project' gitCommit r1 db1
    assume u: "w_Unmarshal w (p_PatchedConfig p) = Some project'"
      and loop: "createPatchBuilds project' (NewPatchTaskIdTable project' (newPatchVersion w p gitCommit) p)
                (p_VariantsTasks p) (newPatchVersion w p gitCommit) db = (r1, db1)"
      and rest: "case r1 of
                 Inl err \<Rightarrow> r = Inl err \<and> p' = p \<and> db' = db1
               | Inr pv \<Rightarrow>
                   (r = Inl (StoreConflict (v_Id pv)) \<and> p' = p \<and> db' = db1
                      \<and> v_Id pv \<in> set (map v_Id (db_versions db1)))
                 \<or> (r = Inr pv \<and> p' = p\<lparr>p_Version := v_Id pv, p_Activated := True\<rparr>
                      \<and> v_Id pv \<notin> set (map v_Id (db_versions db1))
                      \<and> db' = db1\<lparr>db_versions := db_versions db1 @ [pv]\<rparr>)"
    from rest have same: "db_tasks db' = db_tasks db1"
      by (cases r1) auto
    from u assms(2) have pr: "project' = project" by simp
    have id0: "v_Id (newPatchVersion w p gitCommit) = p_Id p @ ''_0''"
      by (simp add: newPatchVersion_def)
    from createPatchBuilds_grown [OF loop] same show ?thesis
      by (auto simp: grown_def pr id0 NewPatchTaskIdTable_def)
  qed
qed

lemma Extend_new_tasks:
  assumes "Extend q v project pairs db = (r, q', v', db')"
  shows "\<exists>newT. db_tasks db' = db_tasks db @ newT
           \<and> (\<forall>t \<in> set newT. madeFor project (v_Id v) (tableOf (v_Id v) (projectPairs project)) t
                             \<or> madeFor project (v_Id v) (tableOf (v_Id v) (patchPairs q')) t)"
proof -
  from Extend_stages [OF assms] obtain r1 p1 db1 where
    s1: "AddNewTasksForPatch q v project (remdups (map TaskName pairs)) db = (r1, p1, db1)"
    and s2: "(db' = db1)
             \<or> AddNewBuildsForPatch p1 v project (remdups (map Variant pairs)) db1 = (r, q', v', db')"
    by blast
  from AddNewTasksForPatch_result(2) [OF s1] obtain t1 where
    t1: "db_tasks db1 = db_tasks db @ t1"
      "\<forall>t \<in> set t1. madeFor project (v_Id v) (tableOf (v_Id v) (projectPairs project)) t"
    by (auto simp: extended_def NewTaskIdTable_def)
  from s2 show ?thesis
  proof
    assume "db' = db1"
    with t1 show ?thesis by auto
  next
    assume s: "AddNewBuildsForPatch p1 v project (remdups (map Variant pairs)) db1 = (r, q', v', db')"
    from AddNewBuildsForPatch_result(2) [OF s] obtain newB t2 dbm ids sts where
      g: "grown (madeFor project (v_Id v) (NewPatchTaskIdTable project v q'))
            (set (remdups (map Variant pairs)) - set (p_BuildVariants p1)) (set (p_Tasks p1)) db1 newB t2 dbm"
      and last: "db' = dbm \<or> version_UpdateOne_push (v_Id v) ids sts dbm = Inr db'"
      by blast
    from last have "db_tasks db' = db_tasks dbm"
      using version_UpdateOne_push_additive(3) by blast
    with g have t2: "db_tasks db' = db_tasks db1 @ t2"
      "\<forall>t \<in> set t2. madeFor project (v_Id v) (tableOf (v_Id v) (patchPairs q')) t"
      by (simp_all add: grown_def NewPatchTaskIdTable_def)
    have "db_tasks db' = db_tasks db @ (t1 @ t2)" using t1 t2 by simp
    moreover have "\<forall>t \<in> set (t1 @ t2). madeFor project (v_Id v) (tableOf (v_Id v) (projectPairs project)) t
                             \<or> madeFor project (v_Id v) (tableOf (v_Id v) (patchPairs q')) t"
      using t1 t2 by auto
    ultimately show ?thesis by blast
  qed
qed

text \<open>
  Claim C4, as amended. For every task that \<^verbatim>\<open>FinalizePatch\<close> or the extend path
  creates, whatever the call returns, \<open>DependsOn\<close> holds the ids that the allocator
  gives to the declared dependencies of the task, resolved by variant, and each of these
  dependencies is a pair of the table: a pair the patch knows, or for the extend path
  a pair of the project. When \<^verbatim>\<open>FinalizePatch\<close> succeeds and the pairs of \<open>Tasks\<close> and
  \<open>BuildVariants\<close> are among those of \<open>VariantsTasks\<close>, every id in \<open>DependsOn\<close> is the id of
  a task created by the same call.
\<close>

theorem DependsOn_ids_of_the_table:
  "(FinalizePatch w p settings db = (r, p', db') \<longrightarrow> w_Unmarshal w (p_PatchedConfig p) = Some project \<longrightarrow>
      (\<exists>newT. db_tasks db' = db_tasks db @ newT
         \<and> (\<forall>t \<in> set newT.
               t_DependsOn t = map (taskId (p_Id p @ ''_0'')) (dependenciesOf project (taskPair t))
             \<and> set (dependenciesOf project (taskPair t)) \<subseteq> set (patchPairs p))
         \<and> ((\<exists>ver. r = Inr ver) \<longrightarrow>
               set (crossPairs (p_BuildVariants p) (p_Tasks p))
                 \<subseteq> set (VariantTasksToTVPairs (p_VariantsTasks p)) \<longrightarrow>
               (\<forall>t \<in> set newT. set (t_DependsOn t) \<subseteq> t_Id ` set newT))))
 \<and> (Extend q v project' pairs db = (r', q', v', db'') \<longrightarrow>
      (\<exists>newT. db_tasks db'' = db_tasks db @ newT
         \<and> (\<forall>t \<in> set newT.
               t_DependsOn t = map (taskId (v_Id v)) (dependenciesOf project' (taskPair t))
             \<and> set (dependenciesOf project' (taskPair t))
                  \<subseteq> set (patchPairs q') \<union> set (projectPairs project'))))"
proof (intro conjI impI)
  assume f: "FinalizePatch w p settings db = (r, p', db')"
    and u: "w_Unmarshal w (p_PatchedConfig p) = Some project"
  let ?vid = "p_Id p @ ''_0''"
  from FinalizePatch_new_tasks [OF f u] obtain newT where
    newT: "db_tasks db' = db_tasks db @ newT"
    and made: "\<forall>t \<in> set newT. madeFor project ?vid (tableOf ?vid (patchPairs p)) t"
    by blast
  have a: "\<forall>t \<in> set newT.
               t_DependsOn t = map (taskId ?vid) (dependenciesOf project (taskPair t))
             \<and> set (dependenciesOf project (taskPair t)) \<subseteq> set (patchPairs p)"
    using made madeFor_tableOf(1,2) by blast
  have b: "(\<exists>ver. r = Inr ver) \<longrightarrow>
               set (crossPairs (p_BuildVariants p) (p_Tasks p))
                 \<subseteq> set (VariantTasksToTVPairs (p_VariantsTasks p)) \<longrightarrow>
               (\<forall>t \<in> set newT. set (t_DependsOn t) \<subseteq> t_Id ` set newT)"
  proof (intro impI ballI subsetI)
    fix t d
    assume "\<exists>ver. r = Inr ver"
      and cover: "set (crossPairs (p_BuildVariants p) (p_Tasks p))
                 \<subseteq> set (VariantTasksToTVPairs (p_VariantsTasks p))"
      and t: "t \<in> set newT" and d: "d \<in> set (t_DependsOn t)"
    then obtain ver where r: "r = Inr ver" by blast
    from FinalizePatch_success [OF f [unfolded r]] obtain new' where
      "db_tasks db' = db_tasks db @ new'"
      "map taskPair new' = VariantTasksToTVPairs (p_VariantsTasks p)"
      by blast
    with newT have pairs: "map taskPair newT = VariantTasksToTVPairs (p_VariantsTasks p)"
      by simp
    from a t d obtain dp where dp: "dp \<in> set (patchPairs p)" and did: "d = taskId ?vid dp"
      by auto
    from dp cover have "dp \<in> set (VariantTasksToTVPairs (p_VariantsTasks p))"
      by (auto simp: patchPairs_def)
    with pairs have "dp \<in> taskPair ` set newT"
      by (metis set_map)
    then obtain t' where t': "t' \<in> set newT" and tp: "taskPair t' = dp" by blast
    from made t' have "t_Id t' = taskId ?vid (taskPair t')"
      using madeFor_tableOf(3) by blast
    with tp did t' show "d \<in> t_Id ` set newT" by force
  qed
  from newT a b show "\<exists>newT. db_tasks db' = db_tasks db @ newT
         \<and> (\<forall>t \<in> set newT.
               t_DependsOn t = map (taskId (p_Id p @ ''_0'')) (dependenciesOf project (taskPair t))
             \<and> set (dependenciesOf project (taskPair t)) \<subseteq> set (patchPairs p))
         \<and> ((\<exists>ver. r = Inr ver) \<longrightarrow>
               set (crossPairs (p_BuildVariants p) (p_Tasks p))
                 \<subseteq> set (VariantTasksToTVPairs (p_VariantsTasks p)) \<longrightarrow>
               (\<forall>t \<in> set newT. set (t_DependsOn t) \<subseteq> t_Id ` set newT))"
    by (intro exI [of _ newT] conjI)
next
  assume e: "Extend q v project' pairs db = (r', q', v', db'')"
  from Extend_new_tasks [OF e] obtain newT where
    newT: "db_tasks db'' = db_tasks db @ newT"
    and made: "\<forall>t \<in> set newT. madeFor project' (v_Id v) (tableOf (v_Id v) (projectPairs project')) t
                             \<or> madeFor project' (v_Id v) (tableOf (v_Id v) (patchPairs q')) t"
    by blast
  have "\<forall>t \<in> set newT.
               t_DependsOn t = map (taskId (v_Id v)) (dependenciesOf project' (taskPair t))
             \<and> set (dependenciesOf project' (taskPair t))
                  \<subseteq> set (patchPairs q') \<union> set (projectPairs project')"
  proof
    fix t assume "t \<in> set newT"
    with made consider "madeFor project' (v_Id v) (tableOf (v_Id v) (projectPairs project')) t"
      | "madeFor project' (v_Id v) (tableOf (v_Id v) (patchPairs q')) t"
      by blast
    then show "t_DependsOn t = map (taskId (v_Id v)) (dependenciesOf project' (taskPair t))
             \<and> set (dependenciesOf project' (taskPair t))
                  \<subseteq> set (patchPairs q') \<union> set (projectPairs project')"
      using madeFor_tableOf(1,2) by cases blast+
  qed
  with newT show "\<exists>newT. db_tasks db'' = db_tasks db @ newT
         \<and> (\<forall>t \<in> set newT.
               t_DependsOn t = map (taskId (v_Id v)) (dependenciesOf project' (taskPair t))
             \<and> set (dependenciesOf project' (taskPair t))
                  \<subseteq> set (patchPairs q') \<union> set (projectPairs project'))"
    by blast
qed

subsection \<open>The scenarios, evaluated\<close>

lemma finalize_patchLinuxCompile:
  "FinalizePatch world0 patchLinuxCompile settings0 emptyDB = (Inr versionF, patchF, dbF)"
  by code_simp

lemma schedule_pending:
  "schedulePatch world0 settings0 ctxPending requestPending emptyDB = (Inr ''5f_0'', Some patchF, dbF)"
  by code_simp

lemma extend_osx_compile:
  "Extend patchF versionF linuxOsx [\<lparr>Variant = ''osx'', TaskName = ''compile''\<rparr>] dbF
     = (None, patchO, versionO, dbO)"
  by code_simp

lemma extend_linux_test:
  "Extend patchF versionF linuxOsx [\<lparr>Variant = ''linux'', TaskName = ''test''\<rparr>] dbF
     = (None, patchT, versionF, dbT)"
  by code_simp

lemma finalize_patchOsxCompile:
  "FinalizePatch world0 patchOsxCompile settings0 emptyDB = (Inr versionOsx, patchOsxF, dbOsxF)"
  by code_simp


lemma extend_osx_linux_test:
  "Extend patchOsxF versionOsx linuxOsx pairLinuxTest dbOsxF
     = (Some (UnknownTask ''osx'' ''test''), patchOsxT, versionOsx, dbOsxF)"
  by code_simp


text \<open>
  Claim C1, as amended. \<^verbatim>\<open>FinalizePatch\<close> does not look at \<open>p.Version\<close>: its result and
  the store it leaves are the same for every value of that field, and no error of its
  own rejects a finalized patch. A call that succeeds leaves the patch with the id of the
  new version, which is not empty, as its \<open>Version\<close>; a second call on the patch and the
  store that the first one left fails and changes neither: the store refuses the id of
  the first build, or of the version, as a duplicate. The test of \<open>Version\<close> is in the
  caller: \<^verbatim>\<open>schedulePatch\<close> takes the extend branch for a patch whose \<open>Version\<close> is not
  empty, and that branch inserts no version (the ids of the stored versions stay as
  they are); for a patch whose \<open>Version\<close> is empty a successful call leaves the patch
  with the id of the new version as its \<open>Version\<close>.
\<close>

theorem FinalizePatch_has_no_Version_check:
  "fst (FinalizePatch w (p\<lparr>p_Version := x\<rparr>) settings db) = fst (FinalizePatch w p settings db)
 \<and> snd (snd (FinalizePatch w (p\<lparr>p_Version := x\<rparr>) settings db)) = snd (snd (FinalizePatch w p settings db))
 \<and> (FinalizePatch w q settings dbq = (Inr v, q', dbq') \<longrightarrow>
      p_Version q' = v_Id v \<and> v_Id v \<noteq> []
    \<and> (\<exists>i. FinalizePatch w q' settings dbq' = (Inl (StoreConflict i), q', dbq')))
 \<and> (rq_FindOne r = Inr patch \<longrightarrow> p_Version patch \<noteq> [] \<longrightarrow>
      map v_Id (db_versions (snd (snd (schedulePatch w settings projCtx r db)))) = map v_Id (db_versions db))
 \<and> (rq_FindOne r = Inr patch \<longrightarrow> p_Version patch = [] \<longrightarrow>
      schedulePatch w settings projCtx r db = (Inr vid, Some p', db') \<longrightarrow>
      p_Version p' = vid \<and> vid \<noteq> [])"
proof (intro conjI impI)
  show "fst (FinalizePatch w (p\<lparr>p_Version := x\<rparr>) settings db) = fst (FinalizePatch w p settings db)"
    and "snd (snd (FinalizePatch w (p\<lparr>p_Version := x\<rparr>) settings db))
           = snd (snd (FinalizePatch w p settings db))"
    using FinalizePatch_same_for_every_Version by simp_all
next
  assume f: "FinalizePatch w q settings dbq = (Inr v, q', dbq')"
  from FinalizePatch_twice [OF f]
  show "p_Version q' = v_Id v" and "v_Id v \<noteq> []"
    and "\<exists>i. FinalizePatch w q' settings dbq' = (Inl (StoreConflict i), q', dbq')"
    by simp_all
next
  assume "rq_FindOne r = Inr patch" and "p_Version patch \<noteq> []"
  then show "map v_Id (db_versions (snd (snd (schedulePatch w settings projCtx r db))))
               = map v_Id (db_versions db)"
    by (rule schedulePatch_finalized_keeps_versions)
next
  assume "rq_FindOne r = Inr patch" and "p_Version patch = []"
    and "schedulePatch w settings projCtx r db = (Inr vid, Some p', db')"
  then show "p_Version p' = vid" and "vid \<noteq> []"
    using schedulePatch_finalize_sets_Version by blast+
qed

theorem FinalizePatch_has_no_Version_check_witness:
  "fst (FinalizePatch world0 (patchLinuxCompile\<lparr>p_Version := ''5f_0''\<rparr>) settings0 emptyDB)
     = fst (FinalizePatch world0 patchLinuxCompile settings0 emptyDB)
 \<and> p_Version patchF = v_Id versionF
 \<and> (\<exists>i. FinalizePatch world0 patchF settings0 dbF = (Inl (StoreConflict i), patchF, dbF))
 \<and> map v_Id (db_versions (snd (snd (schedulePatch world0 settings0 ctxFinalized requestFinalized dbF))))
     = map v_Id (db_versions dbF)
 \<and> p_Version patchF = ''5f_0''"
proof -
  have f1: "rq_FindOne requestFinalized = Inr patchF" and f2: "p_Version patchF \<noteq> []"
    by (simp_all add: requestFinalized_def patchF_def)
  have g1: "rq_FindOne requestPending = Inr patchLinuxCompile" and g2: "p_Version patchLinuxCompile = []"
    by (simp_all add: requestPending_def patchLinuxCompile_def patch0_def)
  note a = FinalizePatch_has_no_Version_check
      [where w = world0 and p = patchLinuxCompile and x = "''5f_0''" and settings = settings0
         and db = emptyDB and r = requestPending and patch = patchLinuxCompile
         and projCtx = ctxPending and vid = "''5f_0''" and p' = patchF and db' = dbF
         and q = patchLinuxCompile and dbq = emptyDB and v = versionF and q' = patchF and dbq' = dbF]
  note b = FinalizePatch_has_no_Version_check
      [where w = world0 and p = patchLinuxCompile and x = "''5f_0''" and settings = settings0
         and db = dbF and r = requestFinalized and patch = patchF
         and projCtx = ctxFinalized and vid = "''5f_0''" and p' = patchF and db' = dbF
         and q = patchLinuxCompile and dbq = emptyDB and v = versionF and q' = patchF and dbq' = dbF]
  from a have c1: "fst (FinalizePatch world0 (patchLinuxCompile\<lparr>p_Version := ''5f_0''\<rparr>) settings0 emptyDB)
     = fst (FinalizePatch world0 patchLinuxCompile settings0 emptyDB)"
    by (rule conjunct1)
  note a3 = a [THEN conjunct2, THEN conjunct2, THEN conjunct1, rule_format, OF finalize_patchLinuxCompile]
  from a3 have c2: "p_Version patchF = v_Id versionF"
    by (rule conjunct1)
  from a3 have c3: "\<exists>i. FinalizePatch world0 patchF settings0 dbF = (Inl (StoreConflict i), patchF, dbF)"
    by (rule conjunct2 [THEN conjunct2])
  from b [THEN conjunct2, THEN conjunct2, THEN conjunct2, THEN conjunct1, rule_format, OF f1 f2]
  have c4: "map v_Id (db_versions (snd (snd (schedulePatch world0 settings0 ctxFinalized requestFinalized dbF))))
     = map v_Id (db_versions dbF)" .
  from a [THEN conjunct2, THEN conjunct2, THEN conjunct2, THEN conjunct2, rule_format, OF g1 g2 schedule_pending]
  have c5: "p_Version patchF = ''5f_0''"
    by (rule conjunct1)
  from c1 c2 c3 c4 c5 show ?thesis by (intro conjI)
qed

text \<open>
  Claim C1 as stated fails. The patch \<open>patchF\<close> has the version \<open>5f_0\<close>; in a store that
  does not hold the records of that version \<^verbatim>\<open>FinalizePatch\<close> succeeds on it and writes
  the version, the build and the task.
\<close>

theorem FinalizePatch_of_a_finalized_patch:
  "p_Version patchF = ''5f_0''
 \<and> FinalizePatch world0 patchF settings0 emptyDB = (Inr versionF, patchF, dbF)"
  by code_simp

text \<open>
  Claim C2, as amended. A successful \<^verbatim>\<open>FinalizePatch\<close> creates, for every entry of
  \<open>patch.VariantsTasks\<close> in order, one build with \<open>activated = true\<close> for the variant of
  the entry and one activated task for each task name of the entry; the entries have
  distinct variants; the ids of the builds and their status entries are collected, in
  that order, in the new version, whose id is the id of the patch followed by \<open>_0\<close>;
  the version is inserted and the patch is left with that id as its \<open>Version\<close>.
  \<^verbatim>\<open>FinalizePatch\<close> computes no dependency closure.
\<close>

theorem FinalizePatch_one_build_per_entry:
  assumes "FinalizePatch w p settings db = (Inr v, p', db')"
  shows "v_Id v = p_Id p @ ''_0''
       \<and> v_BuildIds v = map (\<lambda>vt. buildId (v_Id v) (vt_Variant vt)) (p_VariantsTasks p)
       \<and> v_BuildVariants v = map (patchBuildStatus (v_Id v)) (p_VariantsTasks p)
       \<and> db_builds db' = db_builds db @ map (patchBuild (v_Id v)) (p_VariantsTasks p)
       \<and> (\<exists>newT. db_tasks db' = db_tasks db @ newT
             \<and> map taskPair newT = VariantTasksToTVPairs (p_VariantsTasks p)
             \<and> (\<forall>t \<in> set newT. t_Activated t \<and> t_Version t = v_Id v))
       \<and> distinct (map vt_Variant (p_VariantsTasks p))
       \<and> db_versions db' = db_versions db @ [v]
       \<and> p' = p\<lparr>p_Version := v_Id v, p_Activated := True\<rparr>"
  by (rule FinalizePatch_success [OF assms])

theorem FinalizePatch_one_build_per_entry_witness:
  "FinalizePatch world0 patchLinuxCompile settings0 emptyDB = (Inr versionF, patchF, dbF)
 \<and> v_BuildIds versionF = map (\<lambda>vt. buildId (v_Id versionF) (vt_Variant vt)) (p_VariantsTasks patchLinuxCompile)
 \<and> db_builds dbF = db_builds emptyDB @ map (patchBuild (v_Id versionF)) (p_VariantsTasks patchLinuxCompile)
 \<and> db_versions dbF = db_versions emptyDB @ [versionF]
 \<and> patchF = patchLinuxCompile\<lparr>p_Version := v_Id versionF, p_Activated := True\<rparr>"
  using FinalizePatch_one_build_per_entry [OF finalize_patchLinuxCompile] finalize_patchLinuxCompile
  by blast

text \<open>
  Claim C2 as stated fails. In \<open>crossProject\<close> the task \<open>test\<close> depends on \<open>compile\<close> of
  the variant \<open>osx\<close>, so the closure of the request \<open>linux: test\<close> has the two variants
  \<open>linux\<close> and \<open>osx\<close>. \<^verbatim>\<open>FinalizePatch\<close> succeeds with the one build of \<open>linux\<close> when the
  lists \<open>Tasks\<close> and \<open>BuildVariants\<close> of the patch cover the dependency, and creates
  nothing when they do not.
\<close>

theorem FinalizePatch_builds_the_request_not_the_closure:
  "map Variant (IncludePatchDependencies crossProject (VariantTasksToTVPairs (p_VariantsTasks patchCrossLegacy)))
     = [''linux'', ''osx'']
 \<and> p_Version patchCrossLegacy = []
 \<and> map_sum id v_BuildIds (fst (FinalizePatch world0 patchCrossLegacy settings0 emptyDB)) = Inr [''5f_0_linux'']
 \<and> map b_BuildVariant (db_builds (snd (snd (FinalizePatch world0 patchCrossLegacy settings0 emptyDB))))
     = [''linux'']
 \<and> FinalizePatch world0 patchCrossTest settings0 emptyDB
     = (Inl (UnresolvedDependency \<lparr>Variant = ''osx'', TaskName = ''compile''\<rparr>), patchCrossTest, emptyDB)"
  by code_simp



theorem DependsOn_ids_of_the_table_witness:
  "(\<exists>newT. db_tasks dbF = db_tasks emptyDB @ newT
      \<and> (\<forall>t \<in> set newT.
            t_DependsOn t = map (taskId (p_Id patchLinuxCompile @ ''_0'')) (dependenciesOf linuxOsx (taskPair t))
          \<and> set (dependenciesOf linuxOsx (taskPair t)) \<subseteq> set (patchPairs patchLinuxCompile))
      \<and> ((\<exists>ver. (Inr versionF :: error + Version) = Inr ver) \<longrightarrow>
            set (crossPairs (p_BuildVariants patchLinuxCompile) (p_Tasks patchLinuxCompile))
              \<subseteq> set (VariantTasksToTVPairs (p_VariantsTasks patchLinuxCompile)) \<longrightarrow>
            (\<forall>t \<in> set newT. set (t_DependsOn t) \<subseteq> t_Id ` set newT)))
 \<and> (\<exists>newT. db_tasks dbT = db_tasks dbF @ newT
      \<and> (\<forall>t \<in> set newT.
            t_DependsOn t = map (taskId (v_Id versionF)) (dependenciesOf linuxOsx (taskPair t))
          \<and> set (dependenciesOf linuxOsx (taskPair t))
               \<subseteq> set (patchPairs patchT) \<union> set (projectPairs linuxOsx)))"
proof -
  have u: "w_Unmarshal world0 (p_PatchedConfig patchLinuxCompile) = Some linuxOsx"
    by (simp add: world0_def patchLinuxCompile_def patch0_def)
  note t = DependsOn_ids_of_the_table
      [where w = world0 and p = patchLinuxCompile and settings = settings0 and db = emptyDB
         and r = "Inr versionF" and p' = patchF and db' = dbF and project = linuxOsx
         and q = patchF and v = versionF and project' = linuxOsx
         and pairs = "[\<lparr>Variant = ''linux'', TaskName = ''test''\<rparr>]"
         and r' = None and q' = patchT and v' = versionF and db'' = dbT]
  note t2 = DependsOn_ids_of_the_table
      [where w = world0 and p = patchLinuxCompile and settings = settings0 and db = dbF
         and r = "Inr versionF" and p' = patchF and db' = dbF and project = linuxOsx
         and q = patchF and v = versionF and project' = linuxOsx
         and pairs = "[\<lparr>Variant = ''linux'', TaskName = ''test''\<rparr>]"
         and r' = None and q' = patchT and v' = versionF and db'' = dbT]
  note a = t [THEN conjunct1, rule_format, OF finalize_patchLinuxCompile u]
  note b = t2 [THEN conjunct2, rule_format, OF extend_linux_test]
  from a b show ?thesis by (intro conjI)
qed

text \<open>
  Claim C4 as stated fails. \<^verbatim>\<open>FinalizePatch\<close> creates the build of \<open>linux\<close>, whose task
  \<open>test\<close> depends on the task \<open>compile\<close> of \<open>osx\<close>; the build of \<open>osx\<close> then fails for the
  unknown task \<open>lint\<close>. The call returns the error and the store keeps the task \<open>test\<close>,
  whose dependency names a task that does not exist.
\<close>

theorem FinalizePatch_failure_leaves_dangling_dependency:
  "fst (FinalizePatch world0 patchCross settings0 emptyDB) = Inl (UnknownTask ''osx'' ''lint'')
 \<and> map t_Id (db_tasks (snd (snd (FinalizePatch world0 patchCross settings0 emptyDB))))
     = [''5f_0_linux_test'']
 \<and> map t_DependsOn (db_tasks (snd (snd (FinalizePatch world0 patchCross settings0 emptyDB))))
     = [[''5f_0_osx_compile'']]"
  by code_simp




lemma linuxOsx_test_def: "FindProjectTask linuxOsx ''test''
  = Some \<lparr>td_Name = ''test'', td_Patchable = None, td_DependsOn = [\<lparr>ref_Name = ''compile'', ref_Variant = []\<rparr>]\<rparr>"
  by code_simp

theorem IncludePatchDependencies_superset_closed_witness:
  "\<lparr>Variant = ''linux'', TaskName = ''test''\<rparr>
     \<in> set (IncludePatchDependencies linuxOsx [\<lparr>Variant = ''linux'', TaskName = ''test''\<rparr>])
 \<and> \<lparr>Variant = ''linux'', TaskName = ''compile''\<rparr>
     \<in> set (IncludePatchDependencies linuxOsx [\<lparr>Variant = ''linux'', TaskName = ''test''\<rparr>])"
proof -
  let ?seed = "[\<lparr>Variant = ''linux'', TaskName = ''test''\<rparr>]"
  note c = IncludePatchDependencies_superset_closed [of ?seed linuxOsx]
  from c have s: "\<lparr>Variant = ''linux'', TaskName = ''test''\<rparr> \<in> set (IncludePatchDependencies linuxOsx ?seed)"
    by simp
  from c [THEN conjunct2, rule_format, OF s, of _ "\<lparr>ref_Name = ''compile'', ref_Variant = []\<rparr>"]
    linuxOsx_test_def
  have "\<lparr>Variant = ''linux'', TaskName = ''compile''\<rparr> \<in> set (IncludePatchDependencies linuxOsx ?seed)"
    by simp
  with s show ?thesis by simp
qed

theorem Extend_additive_only_witness:
  "prefix (map b_Id (db_builds dbF)) (map b_Id (db_builds dbO))
 \<and> prefix (db_tasks dbF) (db_tasks dbO)
 \<and> list_all2 (\<lambda>x y. v_Id x = v_Id y \<and> prefix (v_BuildIds x) (v_BuildIds y)
                     \<and> prefix (v_BuildVariants x) (v_BuildVariants y))
      (db_versions dbF) (db_versions dbO)
 \<and> prefix (v_BuildIds versionF) (v_BuildIds versionO)
 \<and> prefix (v_BuildVariants versionF) (v_BuildVariants versionO)"
  by (rule Extend_additive_only [OF extend_osx_compile])



end
